theory Spec2Isabelle
  imports Main "HOL-Library.Sublist"
begin

section \<open>Strings\<close>

text \<open>
  A JavaScript string is modelled as a \<^typ>\<open>string\<close>: the bytes of its UTF-8 encoding.
  Every string operation of the two source files (\<open>endsWith\<close>, \<open>split\<close>, \<open>join\<close>,
  concatenation, the two regular expressions) looks for ASCII text only, and an ASCII
  byte never occurs inside the encoding of another character, so the operations commute
  with the encoding. The only string length the source reads is that of an array.
\<close>

definition NL :: string where
  "NL = [CHR 0x0A]"

text \<open>\<open>String.prototype.endsWith\<close>.\<close>

definition endsWith :: "string \<Rightarrow> string \<Rightarrow> bool" where
  "endsWith s searchString = suffix searchString s"

text \<open>\<open>Array.prototype.join\<close>.\<close>

fun join :: "string \<Rightarrow> string list \<Rightarrow> string" where
  "join sep [] = []"
| "join sep [x] = x"
| "join sep (x # y # ys) = x @ sep @ join sep (y # ys)"

text \<open>\<open>String.prototype.split\<close> with a one-character separator: never an empty array.\<close>

fun split :: "char \<Rightarrow> string \<Rightarrow> string list" where
  "split sep [] = [[]]"
| "split sep (c # cs) =
     (if c = sep then [] # split sep cs
      else (case split sep cs of
              [] \<Rightarrow> [[c]]
            | p # ps \<Rightarrow> (c # p) # ps))"

section \<open>JSON values and \<open>JSON.parse\<close>\<close>

text \<open>
  The value \<open>JSON.parse\<close> returns. A number is kept exactly, as
  \<open>(-1)^neg * mantissa * 10^exponent\<close>; the members of an object are kept in source order,
  duplicates included (the last one wins on lookup).
\<close>

datatype json =
    JNull
  | JBool bool
  | JNumber bool nat int
  | JString string
  | JArray "json list"
  | JObject "(string \<times> json) list"

definition is_ws :: "char \<Rightarrow> bool" where
  "is_ws c = (c = CHR 0x20 \<or> c = CHR 0x09 \<or> c = CHR 0x0A \<or> c = CHR 0x0D)"

definition skip_ws :: "string \<Rightarrow> string" where
  "skip_ws cs = dropWhile is_ws cs"

definition is_digit :: "char \<Rightarrow> bool" where
  "is_digit c = ((48::nat) \<le> of_char c \<and> of_char c \<le> (57::nat))"

definition digits_val :: "string \<Rightarrow> nat" where
  "digits_val ds = foldl (\<lambda>acc d. 10 * acc + (of_char d - 48)) 0 ds"

definition hex_val :: "char \<Rightarrow> nat option" where
  "hex_val c =
     (let n = (of_char c :: nat) in
      if 48 \<le> n \<and> n \<le> 57 then Some (n - 48)
      else if 65 \<le> n \<and> n \<le> 70 then Some (n - 55)
      else if 97 \<le> n \<and> n \<le> 102 then Some (n - 87)
      else None)"

definition hex4 :: "char \<Rightarrow> char \<Rightarrow> char \<Rightarrow> char \<Rightarrow> nat option" where
  "hex4 a b c d =
     (case (hex_val a, hex_val b, hex_val c, hex_val d) of
        (Some w, Some x, Some y, Some z) \<Rightarrow> Some (((w * 16 + x) * 16 + y) * 16 + z)
      | _ \<Rightarrow> None)"

text \<open>The one-character escapes of a JSON string.\<close>

definition simple_escape :: "char \<Rightarrow> char option" where
  "simple_escape e =
     (if e = CHR 0x22 then Some (CHR 0x22)
      else if e = CHR 0x5C then Some (CHR 0x5C)
      else if e = CHR ''/'' then Some (CHR ''/'')
      else if e = CHR ''b'' then Some (CHR 0x08)
      else if e = CHR ''f'' then Some (CHR 0x0C)
      else if e = CHR ''n'' then Some (CHR 0x0A)
      else if e = CHR ''r'' then Some (CHR 0x0D)
      else if e = CHR ''t'' then Some (CHR 0x09)
      else None)"

text \<open>
  A string literal is read into units: a byte of the text, or the UTF-16 code unit of a
  \<open>\uXXXX\<close> escape. The units are then encoded: an escaped high surrogate directly followed
  by an escaped low surrogate is one code point, and a surrogate without its partner is
  written in the three-byte form of its own number.
\<close>

datatype string_unit = Raw char | Esc nat

fun parse_string_units :: "string \<Rightarrow> (string_unit list \<times> string) option" where
  "parse_string_units [] = None"
| "parse_string_units (c # cs) =
     (if c = CHR 0x22 then Some ([], cs)
      else if c = CHR 0x5C then
        (case cs of
           [] \<Rightarrow> None
         | e # r \<Rightarrow>
             if e = CHR ''u'' then
               (case r of
                  h1 # h2 # h3 # h4 # r' \<Rightarrow>
                    (case hex4 h1 h2 h3 h4 of
                       None \<Rightarrow> None
                     | Some u \<Rightarrow>
                         (case parse_string_units r' of
                            None \<Rightarrow> None
                          | Some (us, rest) \<Rightarrow> Some (Esc u # us, rest)))
                | _ \<Rightarrow> None)
             else
               (case simple_escape e of
                  None \<Rightarrow> None
                | Some ch \<Rightarrow>
                    (case parse_string_units r of
                       None \<Rightarrow> None
                     | Some (us, rest) \<Rightarrow> Some (Raw ch # us, rest))))
      else if (of_char c :: nat) < 0x20 then None
      else
        (case parse_string_units cs of
           None \<Rightarrow> None
         | Some (us, rest) \<Rightarrow> Some (Raw c # us, rest)))"

definition utf8 :: "nat \<Rightarrow> string" where
  "utf8 cp =
     (if cp < 0x80 then [char_of cp]
      else if cp < 0x800 then [char_of (0xC0 + cp div 0x40), char_of (0x80 + cp mod 0x40)]
      else if cp < 0x10000 then
        [char_of (0xE0 + cp div 0x1000), char_of (0x80 + cp div 0x40 mod 0x40),
         char_of (0x80 + cp mod 0x40)]
      else
        [char_of (0xF0 + cp div 0x40000), char_of (0x80 + cp div 0x1000 mod 0x40),
         char_of (0x80 + cp div 0x40 mod 0x40), char_of (0x80 + cp mod 0x40)])"

fun encode_units :: "string_unit list \<Rightarrow> string" where
  "encode_units [] = []"
| "encode_units (Raw c # us) = c # encode_units us"
| "encode_units [Esc u] = utf8 u"
| "encode_units (Esc u # Raw c # us) = utf8 u @ c # encode_units us"
| "encode_units (Esc h # Esc l # us) =
     (if 0xD800 \<le> h \<and> h < 0xDC00 \<and> 0xDC00 \<le> l \<and> l < 0xE000
      then utf8 (0x10000 + (h - 0xD800) * 0x400 + (l - 0xDC00)) @ encode_units us
      else utf8 h @ encode_units (Esc l # us))"

text \<open>The text after an opening double quote: the decoded string and what follows it.\<close>

definition parse_string :: "string \<Rightarrow> (string \<times> string) option" where
  "parse_string cs =
     (case parse_string_units cs of
        None \<Rightarrow> None
      | Some (us, rest) \<Rightarrow> Some (encode_units us, rest))"

definition parse_frac :: "string \<Rightarrow> (string \<times> string) option" where
  "parse_frac cs =
     (case cs of
        [] \<Rightarrow> Some ([], cs)
      | c # r \<Rightarrow>
          if c = CHR ''.'' then
            (if takeWhile is_digit r = [] then None
             else Some (takeWhile is_digit r, dropWhile is_digit r))
          else Some ([], cs))"

definition parse_exp :: "string \<Rightarrow> (int \<times> string) option" where
  "parse_exp cs =
     (case cs of
        [] \<Rightarrow> Some (0, cs)
      | c # r \<Rightarrow>
          if c = CHR ''e'' \<or> c = CHR ''E'' then
            (let (sgn, r1) =
                   (case r of
                      [] \<Rightarrow> (1, r)
                    | s # r' \<Rightarrow>
                        if s = CHR ''+'' then (1, r')
                        else if s = CHR ''-'' then (- 1, r')
                        else (1, r))
             in if takeWhile is_digit r1 = [] then None
                else Some (sgn * int (digits_val (takeWhile is_digit r1)), dropWhile is_digit r1))
          else Some (0, cs))"

definition parse_number :: "string \<Rightarrow> (json \<times> string) option" where
  "parse_number cs =
     (let (neg, cs1) =
            (case cs of
               [] \<Rightarrow> (False, cs)
             | c # r \<Rightarrow> if c = CHR ''-'' then (True, r) else (False, cs))
      in case cs1 of
           [] \<Rightarrow> None
         | d # r \<Rightarrow>
             if \<not> is_digit d then None
             else
               (let (ip, cs2) =
                      (if d = CHR ''0'' then ([d], r)
                       else (takeWhile is_digit cs1, dropWhile is_digit cs1))
                in case parse_frac cs2 of
                     None \<Rightarrow> None
                   | Some (fp, cs3) \<Rightarrow>
                       (case parse_exp cs3 of
                          None \<Rightarrow> None
                        | Some (e, cs4) \<Rightarrow>
                            Some (JNumber neg (digits_val (ip @ fp)) (e - int (length fp)), cs4))))"

text \<open>
  The recursive descent over values, array elements and object members. The first
  argument bounds the depth of the calls. It never decides the result: a depth of the
  number of characters read is enough (\<open>JSON_parse_bound\<close> below), and \<open>JSON_parse\<close>
  allows one more than the length of the text.
\<close>

fun parse_value :: "nat \<Rightarrow> string \<Rightarrow> (json \<times> string) option"
  and parse_elements :: "nat \<Rightarrow> string \<Rightarrow> (json list \<times> string) option"
  and parse_members :: "nat \<Rightarrow> string \<Rightarrow> ((string \<times> json) list \<times> string) option"
where
  "parse_value 0 cs = None"
| "parse_value (Suc n) cs =
     (case skip_ws cs of
        [] \<Rightarrow> None
      | c # r \<Rightarrow>
          if c = CHR ''{'' then
            (case skip_ws r of
               [] \<Rightarrow> None
             | d # r' \<Rightarrow>
                 if d = CHR ''}'' then Some (JObject [], r')
                 else (case parse_members n r of
                         None \<Rightarrow> None
                       | Some (kvs, rest) \<Rightarrow> Some (JObject kvs, rest)))
          else if c = CHR ''['' then
            (case skip_ws r of
               [] \<Rightarrow> None
             | d # r' \<Rightarrow>
                 if d = CHR '']'' then Some (JArray [], r')
                 else (case parse_elements n r of
                         None \<Rightarrow> None
                       | Some (vs, rest) \<Rightarrow> Some (JArray vs, rest)))
          else if c = CHR 0x22 then
            (case parse_string r of
               None \<Rightarrow> None
             | Some (s, rest) \<Rightarrow> Some (JString s, rest))
          else if prefix ''true'' (c # r) then Some (JBool True, drop 4 (c # r))
          else if prefix ''false'' (c # r) then Some (JBool False, drop 5 (c # r))
          else if prefix ''null'' (c # r) then Some (JNull, drop 4 (c # r))
          else parse_number (c # r))"
| "parse_elements 0 cs = None"
| "parse_elements (Suc n) cs =
     (case parse_value n cs of
        None \<Rightarrow> None
      | Some (v, r) \<Rightarrow>
          (case skip_ws r of
             [] \<Rightarrow> None
           | c # r' \<Rightarrow>
               if c = CHR '','' then
                 (case parse_elements n r' of
                    None \<Rightarrow> None
                  | Some (vs, rest) \<Rightarrow> Some (v # vs, rest))
               else if c = CHR '']'' then Some ([v], r')
               else None))"
| "parse_members 0 cs = None"
| "parse_members (Suc n) cs =
     (case skip_ws cs of
        [] \<Rightarrow> None
      | q # r \<Rightarrow>
          if q \<noteq> CHR 0x22 then None
          else
            (case parse_string r of
               None \<Rightarrow> None
             | Some (k, r1) \<Rightarrow>
                 (case skip_ws r1 of
                    [] \<Rightarrow> None
                  | c # r2 \<Rightarrow>
                      if c \<noteq> CHR '':'' then None
                      else
                        (case parse_value n r2 of
                           None \<Rightarrow> None
                         | Some (v, r3) \<Rightarrow>
                             (case skip_ws r3 of
                                [] \<Rightarrow> None
                              | s # r4 \<Rightarrow>
                                  if s = CHR '','' then
                                    (case parse_members n r4 of
                                       None \<Rightarrow> None
                                     | Some (kvs, rest) \<Rightarrow> Some ((k, v) # kvs, rest))
                                  else if s = CHR ''}'' then Some ([(k, v)], r4)
                                  else None)))))"

text \<open>
  \<open>JSON.parse\<close>: \<open>None\<close> is the exception it throws (a \<open>SyntaxError\<close>, or a
  \<open>RangeError\<close> when the text nests too deep for the engine).
\<close>

definition JSON_parse :: "string \<Rightarrow> json option" where
  "JSON_parse text =
     (case parse_value (Suc (length text)) text of
        None \<Rightarrow> None
      | Some (v, rest) \<Rightarrow> if skip_ws rest = [] then Some v else None)"

text \<open>
  The double nearest to \<open>m * 10^e\<close> is zero exactly when \<open>m * 10^e \<le> 2^-1075\<close>
  (half of the least positive double; the tie rounds to the even neighbour, zero).
\<close>

definition rounds_to_zero :: "nat \<Rightarrow> int \<Rightarrow> bool" where
  "rounds_to_zero m e = (m = 0 \<or> (e < 0 \<and> m * 2 ^ 1075 \<le> 10 ^ nat (- e)))"

text \<open>JavaScript truthiness of a parsed value.\<close>

fun truthy :: "json \<Rightarrow> bool" where
  "truthy JNull = False"
| "truthy (JBool b) = b"
| "truthy (JNumber neg m e) = (\<not> rounds_to_zero m e)"
| "truthy (JString s) = (s \<noteq> [])"
| "truthy (JArray vs) = True"
| "truthy (JObject kvs) = True"

text \<open>
  Reading a property of a parsed value; \<open>None\<close> is \<open>undefined\<close>. The detector reads only
  \<open>scripts\<close>, \<open>dev\<close>, \<open>start\<close> and \<open>preview\<close>, names that no built-in prototype defines, so
  the value is an own member of an object or \<open>undefined\<close>. With \<open>?.\<close> the same holds for
  \<open>null\<close>.
\<close>

fun get_property :: "json \<Rightarrow> string \<Rightarrow> json option" where
  "get_property (JObject kvs) k = map_of (rev kvs) k"
| "get_property v k = None"

section \<open>Project detection (\<open>projectCommands.ts\<close>)\<close>

record ProjectCommands =
  type :: string
  setupCommand :: "string option"
  startCommand :: "string option"
  followupMessage :: string
  autoStart :: "bool option"

record FileContent =
  content :: string
  path :: string

text \<open>The UTF-8 bytes of the emoji that open the status messages.\<close>

definition rocket :: string where
  "rocket = [CHR 0xF0, CHR 0x9F, CHR 0x9A, CHR 0x80]"

definition package_emoji :: string where
  "package_emoji = [CHR 0xF0, CHR 0x9F, CHR 0x93, CHR 0xA6]"

definition warning_emoji :: string where
  "warning_emoji = [CHR 0xE2, CHR 0x9A, CHR 0xA0, CHR 0xEF, CHR 0xB8, CHR 0x8F]"

definition globe_emoji :: string where
  "globe_emoji = [CHR 0xF0, CHR 0x9F, CHR 0x8C, CHR 0x90]"

definition wrench_emoji :: string where
  "wrench_emoji = [CHR 0xF0, CHR 0x9F, CHR 0x94, CHR 0xA7]"

text \<open>
  \<open>detectProjectCommands\<close>. The function is \<open>async\<close> but awaits nothing; its promise is
  never rejected, since the only call that can throw, \<open>JSON.parse\<close>, is inside the
  \<open>try\<close> block. The result of the model is the value the promise resolves to.
\<close>

definition detectProjectCommands :: "FileContent list \<Rightarrow> ProjectCommands" where
  "detectProjectCommands files =
     (let hasFile = (\<lambda>name. list_ex (\<lambda>f. endsWith (path f) name) files) in
      if hasFile ''package.json'' then
        (case find (\<lambda>f. endsWith (path f) ''package.json'') files of
           None \<Rightarrow>
             \<lparr>type = [], setupCommand = Some ''npm install'', startCommand = None,
              followupMessage = ''Initializing npm project...'', autoStart = None\<rparr>
         | Some packageJsonFile \<Rightarrow>
             (case JSON_parse (content packageJsonFile) of
                None \<Rightarrow>
                  \<lparr>type = ''Node.js'', setupCommand = Some ''npm install'', startCommand = None,
                   followupMessage = warning_emoji @
                     '' Error parsing package.json, but installing dependencies anyway...'',
                   autoStart = None\<rparr>
              | Some packageJson \<Rightarrow>
                  (let scripts =
                         (case get_property packageJson ''scripts'' of
                            None \<Rightarrow> JObject []
                          | Some v \<Rightarrow> if truthy v then v else JObject []);
                       preferredCommands = [''dev'', ''start'', ''preview''];
                       availableCommand =
                         find (\<lambda>cmd. case get_property scripts cmd of
                                        None \<Rightarrow> False
                                      | Some v \<Rightarrow> truthy v)
                           preferredCommands
                   in case availableCommand of
                        Some cmd \<Rightarrow>
                          \<lparr>type = ''Node.js'', setupCommand = Some ''npm install'',
                           startCommand = Some (''npm run '' @ cmd),
                           followupMessage = rocket @
                             '' Jimmyverse.dev workflow: Installing dependencies and starting ''
                             @ cmd @ '' server for live preview...'',
                           autoStart = None\<rparr>
                      | None \<Rightarrow>
                          \<lparr>type = ''Node.js'', setupCommand = Some ''npm install'',
                           startCommand = Some ''npm start'',
                           followupMessage = package_emoji @
                             '' Installing dependencies and attempting to start the project...'',
                           autoStart = None\<rparr>)))
      else if hasFile ''index.html'' then
        \<lparr>type = ''Static'', setupCommand = Some ''npm install -g serve'',
         startCommand = Some ''npx --yes serve'',
         followupMessage = globe_emoji @ '' Setting up static file server for live preview...'',
         autoStart = None\<rparr>
      else
        \<lparr>type = ''Unknown'', setupCommand = Some ''npm install'', startCommand = None,
         followupMessage = wrench_emoji @ '' Attempting to initialize project with npm...'',
         autoStart = None\<rparr>)"


section \<open>Chat messages\<close>

datatype Role = user | assistant

type_synonym Date = int

record Message =
  role :: Role
  content :: string
  id' :: string
  createdAt :: "Date option"

text \<open>
  \<open>generateId\<close> (of \<open>fileUtils\<close>, which is not among the sources) and \<open>new Date()\<close> read
  state outside the program. Both are parameters: functions from the state of the world
  \<open>'w\<close> to the value read and the next state.
\<close>

type_synonym ('a, 'w) effect = "'w \<Rightarrow> 'a \<times> 'w"

text \<open>A string in a condition: \<open>undefined\<close> and the empty string are false.\<close>

fun string_truthy :: "string option \<Rightarrow> bool" where
  "string_truthy None = False"
| "string_truthy (Some s) = (s \<noteq> [])"

text \<open>\<open>createCommandsMessage\<close>. Declared \<open>Message | null\<close>; \<open>None\<close> is \<open>null\<close>.\<close>

definition createCommandsMessage ::
  "(string, 'w) effect \<Rightarrow> (Date, 'w) effect \<Rightarrow> ProjectCommands \<Rightarrow> (Message option, 'w) effect"
where
  \<open>createCommandsMessage generateId newDate commands w =
     (let commandString = [];
          commandString =
            (if string_truthy (setupCommand commands)
             then commandString @ NL @ ''<boltAction type="shell">''
                    @ the (setupCommand commands) @ ''</boltAction>''
             else commandString);
          commandString =
            (if string_truthy (startCommand commands)
             then commandString @ NL @ ''<boltAction type="start">''
                    @ the (startCommand commands) @ ''</boltAction>'' @ NL
             else commandString);
          commandString =
            (if commandString = []
             then NL @ ''<boltAction type="shell">npm install</boltAction>'' @ NL
                    @ ''<boltAction type="start">npm run dev</boltAction>'' @ NL
             else commandString);
          text =
            NL @ (if followupMessage commands \<noteq> []
                  then NL @ NL @ followupMessage commands
                  else rocket @ '' Jimmyverse.dev: Setting up your project with live preview...'')
            @ NL @ ''<boltArtifact id="project-setup" title="Jimmyverse.dev Project Setup">''
            @ NL @ commandString
            @ NL @ ''</boltArtifact>'';
          (newId, w) = generateId w;
          (now, w) = newDate w
      in (Some \<lparr>role = assistant, content = text, id' = newId, createdAt = Some now\<rparr>, w))\<close>

text \<open>\<open>createCommandActionsString\<close>, the sibling used when a snapshot is restored.\<close>

definition createCommandActionsString :: "ProjectCommands \<Rightarrow> string" where
  \<open>createCommandActionsString commands =
     (let commandString = [];
          setupCmd = (if string_truthy (setupCommand commands)
                      then the (setupCommand commands) else ''npm install'');
          commandString = commandString @ NL @ ''<boltAction type="shell">'' @ setupCmd
                            @ ''</boltAction>'';
          startCmd = (if string_truthy (startCommand commands)
                      then the (startCommand commands) else ''npm run dev'');
          commandString = commandString @ NL @ ''<boltAction type="start">'' @ startCmd
                            @ ''</boltAction>'' @ NL
      in commandString)\<close>

section \<open>Escaping the reserved tags\<close>

text \<open>\<open>s.replace(/c/g, r)\<close> for a one-character pattern.\<close>

definition replace_char :: "char \<Rightarrow> string \<Rightarrow> string \<Rightarrow> string" where
  "replace_char c r s = concat (map (\<lambda>x. if x = c then r else [x]) s)"

text \<open>What the callback does to the opening and to the closing tag.\<close>

definition escape_tag :: "string \<Rightarrow> string" where
  "escape_tag tag = replace_char (CHR ''>'') ''&gt;'' (replace_char (CHR ''<'') ''&lt;'' tag)"

text \<open>
  The first group \<open>(<name[^>]*>)\<close> at the start of the text: the tag name, then everything
  up to the first \<open>>\<close>. The class \<open>[^>]\<close> cannot step over a \<open>>\<close>, so
  backtracking into the greedy star finds no other end for the group.
\<close>

definition match_open :: "string \<Rightarrow> string \<Rightarrow> (string \<times> string) option" where
  "match_open openName s =
     (if prefix openName s then
        (case dropWhile (\<lambda>c. c \<noteq> CHR ''>'') (drop (length openName) s) of
           [] \<Rightarrow> None
         | g # rest \<Rightarrow>
             Some (openName @ takeWhile (\<lambda>c. c \<noteq> CHR ''>'') (drop (length openName) s) @ [g],
                   rest))
      else None)"

text \<open>
  The lazy group \<open>([\s\S]*?)\<close> followed by the closing tag: the text up to the first
  place where the closing tag stands, and the text after that tag.
\<close>

fun find_close :: "string \<Rightarrow> string \<Rightarrow> (string \<times> string) option" where
  "find_close closeTag [] = (if closeTag = [] then Some ([], []) else None)"
| "find_close closeTag (c # cs) =
     (if prefix closeTag (c # cs) then Some ([], drop (length closeTag) (c # cs))
      else (case find_close closeTag cs of
              None \<Rightarrow> None
            | Some (body, rest) \<Rightarrow> Some (c # body, rest)))"

text \<open>A match of the whole expression at the start of the text: the three groups and the rest.\<close>

definition match_at :: "string \<Rightarrow> string \<Rightarrow> string \<Rightarrow> (string \<times> string \<times> string \<times> string) option"
where
  "match_at openName closeTag s =
     (case match_open openName s of
        None \<Rightarrow> None
      | Some (openTag, r) \<Rightarrow>
          (case find_close closeTag r of
             None \<Rightarrow> None
           | Some (body, rest) \<Rightarrow> Some (openTag, body, closeTag, rest)))"

text \<open>
  \<open>input.replace(regex, callback)\<close> with the \<open>g\<close> flag: the leftmost match is replaced by
  what the callback returns, the search goes on after the match, and a character at
  which nothing matches is copied.
\<close>

function replace_tag_pairs :: "string \<Rightarrow> string \<Rightarrow> string \<Rightarrow> string" where
  "replace_tag_pairs openName closeTag s =
     (case match_at openName closeTag s of
        Some (openTag, body, closeTag', rest) \<Rightarrow>
          escape_tag openTag @ body @ escape_tag closeTag'
            @ replace_tag_pairs openName closeTag rest
      | None \<Rightarrow>
          (case s of
             [] \<Rightarrow> []
           | c # cs \<Rightarrow> c # replace_tag_pairs openName closeTag cs))"
  by pat_completeness auto
termination
proof -
  have fc: "length rest \<le> length s" if "find_close t s = Some (body, rest)"
    for t s body and rest :: string
    using that
  proof (induction s arbitrary: body rest)
    case Nil
    then show ?case by (simp split: if_splits)
  next
    case (Cons c cs)
    then show ?case by (fastforce split: if_splits option.splits)
  qed
  have mo: "length r < length s" if "match_open n s = Some (tag, r)" for n s tag r
  proof -
    from that obtain g where "dropWhile (\<lambda>c. c \<noteq> CHR ''>'') (drop (length n) s) = g # r"
      by (auto simp: match_open_def split: if_splits list.splits)
    then have "length (g # r) \<le> length (drop (length n) s)"
      by (metis length_dropWhile_le)
    then show ?thesis by simp
  qed
  have ma: "length rest < length s" if "match_at n t s = Some (a, b, c, rest)"
    for n t s a b c rest
    using that fc mo
    by (fastforce simp: match_at_def split: option.splits)
  show ?thesis
    by (relation "measure (\<lambda>(n, t, s). length s)") (auto dest: ma)
qed

declare replace_tag_pairs.simps [simp del]

definition escapeBoltArtifactTags :: "string \<Rightarrow> string" where
  "escapeBoltArtifactTags input = replace_tag_pairs ''<boltArtifact'' ''</boltArtifact>'' input"

definition escapeBoltAActionTags :: "string \<Rightarrow> string" where
  "escapeBoltAActionTags input = replace_tag_pairs ''<boltAction'' ''</boltAction>'' input"

definition escapeBoltTags :: "string \<Rightarrow> string" where
  "escapeBoltTags input = escapeBoltArtifactTags (escapeBoltAActionTags input)"


section \<open>Folder import (\<open>folderImport.ts\<close>)\<close>

text \<open>
  A browser \<open>File\<close> as the importer sees it: its \<open>webkitRelativePath\<close> and the outcome of
  \<open>FileReader.readAsText\<close>, the decoded text or \<open>None\<close> when the reader fires \<open>onerror\<close>.
\<close>

record File =
  webkitRelativePath :: string
  readAsText :: "string option"

datatype error = ReadError

text \<open>The decimal digits of an array length in a template literal.\<close>

fun Number_toString :: "nat \<Rightarrow> string" where
  "Number_toString n =
     (if n < 10 then [char_of (48 + n)]
      else Number_toString (n div 10) @ [char_of (48 + n mod 10)])"

text \<open>The promise made for one file: rejected (\<open>None\<close>) when the read fails.\<close>

definition readFile :: "File \<Rightarrow> FileContent option" where
  "readFile file =
     (case readAsText file of
        None \<Rightarrow> None
      | Some text \<Rightarrow>
          Some \<lparr>FileContent.content = text,
                path = join ''/'' (drop 1 (split (CHR ''/'') (webkitRelativePath file)))\<rparr>)"

text \<open>
  \<open>createChatFromFolder\<close>. \<open>Promise.all\<close> (\<^const>\<open>those\<close>) is rejected as soon as one read
  is, and then so is the promise of the function (\<open>Inl\<close>). An entry of the array is
  \<open>Message | null\<close>, as \<open>createCommandsMessage\<close> is declared.
\<close>

definition createChatFromFolder ::
  "(string, 'w) effect \<Rightarrow> (Date, 'w) effect \<Rightarrow> File list \<Rightarrow> string list \<Rightarrow> string
     \<Rightarrow> (error + Message option list, 'w) effect"
where
  \<open>createChatFromFolder generateId newDate files binaryFiles folderName w =
     (case those (map readFile files) of
        None \<Rightarrow> (Inl ReadError, w)
      | Some fileArtifacts \<Rightarrow>
          (let commands = detectProjectCommands fileArtifacts;
               (commandsMessage, w) = createCommandsMessage generateId newDate commands w;
               binaryFilesMessage =
                 (if length binaryFiles > 0
                  then NL @ NL @ ''Skipped '' @ Number_toString (length binaryFiles)
                         @ '' binary files:'' @ NL
                         @ join NL (map (\<lambda>f. ''- '' @ f) binaryFiles)
                  else []);
               filesText =
                 rocket @ '' Jimmyverse.dev: I'' @ [CHR 0x27] @ ''ve imported the contents of the "''
                 @ folderName @ ''" folder and I'' @ [CHR 0x27]
                 @ ''m setting up the development environment with live preview.''
                 @ binaryFilesMessage @ NL @ NL
                 @ ''<boltArtifact id="imported-files" title="Imported Files" type="bundled" >''
                 @ NL
                 @ join (NL @ NL)
                     (map (\<lambda>file. ''<boltAction type="file" filePath="'' @ path file @ ''">''
                                   @ NL @ escapeBoltTags (FileContent.content file) @ NL
                                   @ ''</boltAction>'')
                        fileArtifacts)
                 @ NL @ ''</boltArtifact>'';
               (filesId, w) = generateId w;
               (filesDate, w) = newDate w;
               filesMessage =
                 \<lparr>role = assistant, content = filesText, id' = filesId,
                  createdAt = Some filesDate\<rparr>;
               (userId, w) = generateId w;
               (userDate, w) = newDate w;
               userMessage =
                 \<lparr>role = user, content = ''Import the "'' @ folderName @ ''" folder'',
                  id' = userId, createdAt = Some userDate\<rparr>;
               messages = [Some userMessage, Some filesMessage];
               (setupId, w) = generateId w;
               messages = messages @
                 [Some \<lparr>role = user,
                        content = wrench_emoji @
                          '' Jimmyverse.dev: Setup dependencies and start development server for live preview'',
                        id' = setupId, createdAt = None\<rparr>];
               (finalCommandsMessage, w) =
                 (case commandsMessage of
                    Some m \<Rightarrow> (Some m, w)
                  | None \<Rightarrow>
                      createCommandsMessage generateId newDate
                        \<lparr>type = ''Unknown'', setupCommand = Some ''npm install'',
                         startCommand = Some ''npm run dev'',
                         followupMessage = rocket @
                           '' Jimmyverse.dev: Initializing project with default npm workflow...'',
                         autoStart = Some True\<rparr> w);
               messages = messages @ [finalCommandsMessage]
           in (Inr messages, w)))\<close>

section \<open>Vocabulary of the properties\<close>

text \<open>
  The entry \<open>scripts.k\<close> of a parsed \<open>package.json\<close>; \<open>None\<close> when the value has no
  \<open>scripts\<close> member or that member has no member \<open>k\<close>.
\<close>

definition script_entry :: "json \<Rightarrow> string \<Rightarrow> json option" where
  "script_entry packageJson k =
     (case get_property packageJson ''scripts'' of
        None \<Rightarrow> None
      | Some s \<Rightarrow> get_property s k)"

text \<open>The entry \<open>scripts.k\<close> is there and JavaScript takes it for true.\<close>

definition script_truthy :: "json \<Rightarrow> string \<Rightarrow> bool" where
  "script_truthy packageJson k =
     (case script_entry packageJson k of None \<Rightarrow> False | Some v \<Rightarrow> truthy v)"

text \<open>The file the detector reads as \<open>package.json\<close>, and the test it applies to a path.\<close>

definition is_package_json :: "FileContent \<Rightarrow> bool" where
  "is_package_json f = endsWith (path f) ''package.json''"

definition is_index_html :: "FileContent \<Rightarrow> bool" where
  "is_index_html f = endsWith (path f) ''index.html''"

text \<open>The actions of a setup message and the text each one is written as.\<close>

datatype action = Shell string | Start string

fun render_action :: "action \<Rightarrow> string" where
  \<open>render_action (Shell c) = NL @ ''<boltAction type="shell">'' @ c @ ''</boltAction>''\<close>
| \<open>render_action (Start c) = NL @ ''<boltAction type="start">'' @ c @ ''</boltAction>'' @ NL\<close>

fun is_shell :: "action \<Rightarrow> bool" where
  "is_shell (Shell c) = True"
| "is_shell (Start c) = False"

text \<open>A text holds an action of the given kind: the opening tag of one occurs in it.\<close>

definition has_action :: "string \<Rightarrow> string \<Rightarrow> bool" where
  \<open>has_action kind text = sublist (''<boltAction type="'' @ kind @ ''">'') text\<close>


text \<open>No \<open>start\<close> action stands before a \<open>shell\<close> action in the list.\<close>

fun setup_precedes_start :: "action list \<Rightarrow> bool" where
  "setup_precedes_start [] = True"
| "setup_precedes_start (a # as) =
     ((is_shell a \<or> list_all (\<lambda>b. \<not> is_shell b) as) \<and> setup_precedes_start as)"

text \<open>The artifact block of a setup message with the given list of actions.\<close>

definition setup_artifact :: "action list \<Rightarrow> string" where
  \<open>setup_artifact acts =
     ''<boltArtifact id="project-setup" title="Jimmyverse.dev Project Setup">'' @ NL
     @ concat (map render_action acts) @ NL @ ''</boltArtifact>''\<close>

text \<open>The action block of one imported file, and the artifact block of all of them.\<close>

definition file_action :: "FileContent \<Rightarrow> string" where
  \<open>file_action file =
     ''<boltAction type="file" filePath="'' @ path file @ ''">'' @ NL
     @ escapeBoltTags (FileContent.content file) @ NL @ ''</boltAction>''\<close>

definition files_artifact :: "FileContent list \<Rightarrow> string" where
  \<open>files_artifact fileArtifacts =
     ''<boltArtifact id="imported-files" title="Imported Files" type="bundled" >'' @ NL
     @ join (NL @ NL) (map file_action fileArtifacts) @ NL @ ''</boltArtifact>''\<close>

text \<open>Every file of the list can be read, and what the reads give.\<close>

definition readable :: "File list \<Rightarrow> bool" where
  "readable files = list_all (\<lambda>file. readAsText file \<noteq> None) files"

definition contents_of :: "File list \<Rightarrow> FileContent list" where
  "contents_of files = map (\<lambda>file. the (readFile file)) files"

text \<open>
  The text holds a matched pair of the tag: the tag name, then an opening tag that runs to
  its first \<open>>\<close>, and somewhere after it the closing tag. This is what the regular
  expression \<open>(<name[^>]*>)([\s\S]*?)(</name>)\<close> can match at all.
\<close>

definition has_pair :: "string \<Rightarrow> string \<Rightarrow> string \<Rightarrow> bool" where
  "has_pair openName closeTag s =
     (\<exists>pre attrs body post.
        s = pre @ openName @ attrs @ ''>'' @ body @ closeTag @ post
        \<and> CHR ''>'' \<notin> set attrs)"

text \<open>The text holds no \<open>boltAction\<close> tag and no opening \<open>boltArtifact\<close> tag.\<close>

definition no_bolt_tag :: "string \<Rightarrow> bool" where
  "no_bolt_tag s =
     (\<not> sublist ''<boltAction'' s \<and> \<not> sublist ''</boltAction>'' s
      \<and> \<not> sublist ''<boltArtifact'' s)"

section \<open>The bound of the parser\<close>

text \<open>
  What the parser returns is shorter than what it was given, and a result found with
  some bound is found with every bound that is at least the number of characters read.
\<close>

lemma length_skip_ws: "length (skip_ws cs) \<le> length cs"
  by (simp add: skip_ws_def length_dropWhile_le)

lemma parse_string_units_length:
  "parse_string_units cs = Some (us, rest) \<Longrightarrow> length rest < length cs"
proof (induction cs arbitrary: us rule: parse_string_units.induct)
  case 1
  then show ?case by simp
next
  case (2 c cs)
  show ?case
  proof (cases "c = CHR 0x22")
    case True
    with "2.prems" show ?thesis by simp
  next
    case quote: False
    show ?thesis
    proof (cases "c = CHR 0x5C")
      case False
      with quote "2.prems" obtain us' where "parse_string_units cs = Some (us', rest)"
        and "\<not> (of_char c :: nat) < 0x20"
        by (auto split: if_splits option.splits)
      with "2.IH"(3) quote False have "length rest < length cs"
        by simp
      then show ?thesis by simp
    next
      case True
      with quote "2.prems" obtain e r where cs: "cs = e # r"
        by (cases cs) auto
      show ?thesis
      proof (cases "e = CHR ''u''")
        case False
        with True quote cs "2.prems" obtain ch us' where
          "simple_escape e = Some ch" "parse_string_units r = Some (us', rest)"
          by (auto split: option.splits)
        with "2.IH"(2) [OF quote True cs False] have "length rest < length r" by simp
        with cs show ?thesis by simp
      next
        case u: True
        with True quote cs "2.prems" obtain h1 h2 h3 h4 r' where r: "r = h1 # h2 # h3 # h4 # r'"
          by (auto split: list.splits)
        with u True quote cs "2.prems" obtain x us' where
          "hex4 h1 h2 h3 h4 = Some x" "parse_string_units r' = Some (us', rest)"
          by (auto split: option.splits)
        with "2.IH"(1) [OF quote True cs u] r have "length rest < length r'" by simp
        with cs r show ?thesis by simp
      qed
    qed
  qed
qed

lemma parse_string_length:
  "parse_string cs = Some (s, rest) \<Longrightarrow> length rest < length cs"
  by (auto simp: parse_string_def parse_string_units_length split: option.splits)

lemma parse_frac_length: "parse_frac cs = Some (fp, rest) \<Longrightarrow> length rest \<le> length cs"
  by (auto simp: parse_frac_def length_dropWhile_le le_SucI split: list.splits if_splits)

lemma parse_exp_length: "parse_exp cs = Some (e, rest) \<Longrightarrow> length rest \<le> length cs"
proof (cases cs)
  case Nil
  assume "parse_exp cs = Some (e, rest)"
  with Nil show ?thesis by (simp add: parse_exp_def)
next
  case (Cons c r)
  assume a: "parse_exp cs = Some (e, rest)"
  show ?thesis
  proof (cases "c = CHR ''e'' \<or> c = CHR ''E''")
    case False
    with a Cons show ?thesis by (simp add: parse_exp_def)
  next
    case True
    define r1 where "r1 = snd (case r of
                      [] \<Rightarrow> (1 :: int, r)
                    | s # r' \<Rightarrow>
                        if s = CHR ''+'' then (1, r')
                        else if s = CHR ''-'' then (- 1, r')
                        else (1, r))"
    have "length r1 \<le> length r"
      by (auto simp: r1_def split: list.splits)
    moreover from a Cons True have "rest = dropWhile is_digit r1"
      by (auto simp: parse_exp_def r1_def Let_def case_prod_beta split: if_splits)
    moreover have "length (dropWhile is_digit r1) \<le> length r1"
      by (rule length_dropWhile_le)
    ultimately show ?thesis using Cons by simp
  qed
qed

lemma parse_number_length:
  assumes "parse_number cs = Some (v, rest)"
  shows "length rest < length cs"
proof -
  define cs1 where "cs1 = snd (case cs of
               [] \<Rightarrow> (False, cs)
             | c # r \<Rightarrow> if c = CHR ''-'' then (True, r) else (False, cs))"
  have cs1: "length cs1 \<le> length cs"
    by (auto simp: cs1_def split: list.splits)
  from assms obtain d r where dr: "cs1 = d # r" and d: "is_digit d"
    by (cases cs1) (auto simp: parse_number_def cs1_def Let_def case_prod_beta split: if_splits)
  define cs2 where "cs2 = snd (if d = CHR ''0'' then ([d], r)
                       else (takeWhile is_digit cs1, dropWhile is_digit cs1))"
  have "length cs2 \<le> length r"
    using dr d by (auto simp: cs2_def length_dropWhile_le)
  moreover from assms dr d obtain fp cs3 e where
    "parse_frac cs2 = Some (fp, cs3)" "parse_exp cs3 = Some (e, rest)"
    by (auto simp: parse_number_def cs1_def [symmetric] cs2_def Let_def case_prod_beta
        split: if_splits option.splits)
  then have "length rest \<le> length cs2"
    using parse_frac_length parse_exp_length by (meson le_trans)
  ultimately show ?thesis using dr cs1 by simp
qed

lemma skip_ws_Cons_length: "skip_ws cs = c # r \<Longrightarrow> length r < length cs"
  using length_skip_ws [of cs] by simp

lemma parse_value_bound_step:
  assumes members: "\<And>cs kvs rest. parse_members n cs = Some (kvs, rest) \<Longrightarrow>
        length rest < length cs
        \<and> (\<forall>m. length cs \<le> m + length rest \<longrightarrow> parse_members m cs = Some (kvs, rest))"
    and elements: "\<And>cs vs rest. parse_elements n cs = Some (vs, rest) \<Longrightarrow>
        length rest < length cs
        \<and> (\<forall>m. length cs \<le> m + length rest \<longrightarrow> parse_elements m cs = Some (vs, rest))"
    and result: "parse_value (Suc n) cs = Some (v, rest)"
  shows "length rest < length cs
        \<and> (\<forall>m. length cs \<le> m + length rest \<longrightarrow> parse_value m cs = Some (v, rest))"
proof -
  from result obtain c r where sk: "skip_ws cs = c # r"
    by (cases "skip_ws cs") auto
  then have r: "length r < length cs" by (rule skip_ws_Cons_length)
  have enough: "\<exists>m'. m = Suc m' \<and> length r \<le> m' + length rest"
    if "length cs \<le> m + length rest" "length rest \<le> length r" for m
    using that r by (cases m) auto
  consider (object) "c = CHR ''{''" | (array) "c \<noteq> CHR ''{''" "c = CHR ''[''"
    | (leaf) "c \<noteq> CHR ''{''" "c \<noteq> CHR ''[''"
    by blast
  then show ?thesis
  proof cases
    case object
    with result sk obtain d r' where sk': "skip_ws r = d # r'"
      by (cases "skip_ws r") auto
    then have r': "length r' < length r" by (rule skip_ws_Cons_length)
    show ?thesis
    proof (cases "d = CHR ''}''")
      case True
      with result sk sk' object have v: "v = JObject []" "rest = r'" by simp_all
      have "parse_value m cs = Some (v, rest)" if "length cs \<le> m + length rest" for m
      proof -
        from enough [OF that] r' v obtain m' where "m = Suc m'" by auto
        with sk sk' object True v show ?thesis by simp
      qed
      with r r' v show ?thesis by simp
    next
      case False
      with result sk sk' object obtain kvs where
        pm: "parse_members n r = Some (kvs, rest)" and v: "v = JObject kvs"
        by (auto split: option.splits)
      from members [OF pm] have less: "length rest < length r"
        and more: "\<And>m. length r \<le> m + length rest \<Longrightarrow> parse_members m r = Some (kvs, rest)"
        by simp_all
      have "parse_value m cs = Some (v, rest)" if "length cs \<le> m + length rest" for m
      proof -
        from enough [OF that] less obtain m' where m: "m = Suc m'"
          and "length r \<le> m' + length rest" by auto
        then have "parse_members m' r = Some (kvs, rest)" by (simp add: more)
        with m sk sk' object False v show ?thesis by simp
      qed
      with r less show ?thesis by simp
    qed
  next
    case array
    with result sk obtain d r' where sk': "skip_ws r = d # r'"
      by (cases "skip_ws r") auto
    then have r': "length r' < length r" by (rule skip_ws_Cons_length)
    show ?thesis
    proof (cases "d = CHR '']''")
      case True
      with result sk sk' array have v: "v = JArray []" "rest = r'" by simp_all
      have "parse_value m cs = Some (v, rest)" if "length cs \<le> m + length rest" for m
      proof -
        from enough [OF that] r' v obtain m' where "m = Suc m'" by auto
        with sk sk' array True v show ?thesis by simp
      qed
      with r r' v show ?thesis by simp
    next
      case False
      with result sk sk' array obtain vs where
        pe: "parse_elements n r = Some (vs, rest)" and v: "v = JArray vs"
        by (auto split: option.splits)
      from elements [OF pe] have less: "length rest < length r"
        and more: "\<And>m. length r \<le> m + length rest \<Longrightarrow> parse_elements m r = Some (vs, rest)"
        by simp_all
      have "parse_value m cs = Some (v, rest)" if "length cs \<le> m + length rest" for m
      proof -
        from enough [OF that] less obtain m' where m: "m = Suc m'"
          and "length r \<le> m' + length rest" by auto
        then have "parse_elements m' r = Some (vs, rest)" by (simp add: more)
        with m sk sk' array False v show ?thesis by simp
      qed
      with r less show ?thesis by simp
    qed
  next
    case leaf
    define leaf_value where "leaf_value =
      (if c = CHR 0x22 then
            (case parse_string r of
               None \<Rightarrow> None
             | Some (s, rest) \<Rightarrow> Some (JString s, rest))
          else if prefix ''true'' (c # r) then Some (JBool True, drop 4 (c # r))
          else if prefix ''false'' (c # r) then Some (JBool False, drop 5 (c # r))
          else if prefix ''null'' (c # r) then Some (JNull, drop 4 (c # r))
          else parse_number (c # r))"
    have unfold: "parse_value (Suc k) cs = leaf_value" for k
      using sk leaf by (simp add: leaf_value_def)
    with result have lv: "leaf_value = Some (v, rest)" by simp
    have "length rest \<le> length r"
    proof (cases "c = CHR 0x22")
      case True
      with lv obtain s where "parse_string r = Some (s, rest)"
        by (auto simp: leaf_value_def split: option.splits)
      from parse_string_length [OF this] show ?thesis by simp
    next
      case False
      show ?thesis
      proof (cases "prefix ''true'' (c # r) \<or> prefix ''false'' (c # r) \<or> prefix ''null'' (c # r)")
        case True
        with lv False show ?thesis
          by (auto simp: leaf_value_def split: if_splits)
      next
        case no_literal: False
        then have "\<not> prefix ''true'' (c # r)" "\<not> prefix ''false'' (c # r)"
          "\<not> prefix ''null'' (c # r)"
          by blast+
        with lv False have "parse_number (c # r) = Some (v, rest)"
          unfolding leaf_value_def by (simp only: if_False)
        from parse_number_length [OF this] show ?thesis by simp
      qed
    qed
    moreover have "parse_value m cs = Some (v, rest)" if "length cs \<le> m + length rest" for m
    proof -
      from enough [OF that \<open>length rest \<le> length r\<close>] obtain m' where "m = Suc m'" by auto
      with unfold lv show ?thesis by simp
    qed
    ultimately show ?thesis using r by simp
  qed
qed

lemma parse_elements_bound_step:
  assumes val: "\<And>cs v rest. parse_value n cs = Some (v, rest) \<Longrightarrow>
        length rest < length cs
        \<and> (\<forall>m. length cs \<le> m + length rest \<longrightarrow> parse_value m cs = Some (v, rest))"
    and elements: "\<And>cs vs rest. parse_elements n cs = Some (vs, rest) \<Longrightarrow>
        length rest < length cs
        \<and> (\<forall>m. length cs \<le> m + length rest \<longrightarrow> parse_elements m cs = Some (vs, rest))"
    and result: "parse_elements (Suc n) cs = Some (vs, rest)"
  shows "length rest < length cs
        \<and> (\<forall>m. length cs \<le> m + length rest \<longrightarrow> parse_elements m cs = Some (vs, rest))"
proof -
  from result obtain v r where pv: "parse_value n cs = Some (v, r)"
    by (auto split: option.splits)
  from val [OF pv] have r: "length r < length cs"
    and more_v: "\<And>m. length cs \<le> m + length r \<Longrightarrow> parse_value m cs = Some (v, r)"
    by simp_all
  from result pv obtain c r' where sk: "skip_ws r = c # r'"
    by (cases "skip_ws r") auto
  then have r': "length r' < length r" by (rule skip_ws_Cons_length)
  show ?thesis
  proof (cases "c = CHR '',''")
    case True
    with result pv sk obtain vs' where pe: "parse_elements n r' = Some (vs', rest)"
      and vs: "vs = v # vs'"
      by (auto split: option.splits)
    from elements [OF pe] have less: "length rest < length r'"
      and more_e: "\<And>m. length r' \<le> m + length rest \<Longrightarrow> parse_elements m r' = Some (vs', rest)"
      by simp_all
    have "parse_elements m cs = Some (vs, rest)" if "length cs \<le> m + length rest" for m
    proof -
      from that r r' less obtain m' where m: "m = Suc m'" by (cases m) auto
      with that r r' less have "length cs \<le> m' + length r" "length r' \<le> m' + length rest"
        by simp_all
      then have "parse_value m' cs = Some (v, r)" "parse_elements m' r' = Some (vs', rest)"
        by (simp_all add: more_v more_e)
      with m sk True vs show ?thesis by simp
    qed
    with r r' less show ?thesis by simp
  next
    case False
    with result pv sk have close: "c = CHR '']''" and vs: "vs = [v]" "rest = r'"
      by (auto split: if_splits)
    have "parse_elements m cs = Some (vs, rest)" if "length cs \<le> m + length rest" for m
    proof -
      from that r r' vs obtain m' where m: "m = Suc m'" by (cases m) auto
      with that r r' vs have "length cs \<le> m' + length r" by simp
      then have "parse_value m' cs = Some (v, r)" by (simp add: more_v)
      with m sk False close vs show ?thesis by simp
    qed
    with r r' vs show ?thesis by simp
  qed
qed

lemma parse_members_bound_step:
  assumes val: "\<And>cs v rest. parse_value n cs = Some (v, rest) \<Longrightarrow>
        length rest < length cs
        \<and> (\<forall>m. length cs \<le> m + length rest \<longrightarrow> parse_value m cs = Some (v, rest))"
    and members: "\<And>cs kvs rest. parse_members n cs = Some (kvs, rest) \<Longrightarrow>
        length rest < length cs
        \<and> (\<forall>m. length cs \<le> m + length rest \<longrightarrow> parse_members m cs = Some (kvs, rest))"
    and result: "parse_members (Suc n) cs = Some (kvs, rest)"
  shows "length rest < length cs
        \<and> (\<forall>m. length cs \<le> m + length rest \<longrightarrow> parse_members m cs = Some (kvs, rest))"
proof -
  from result obtain q r where sk: "skip_ws cs = q # r"
    by (cases "skip_ws cs") auto
  then have r: "length r < length cs" by (rule skip_ws_Cons_length)
  from result sk have q: "q = CHR 0x22"
    by (auto split: if_splits)
  with result sk obtain k r1 where ps: "parse_string r = Some (k, r1)"
    by (auto split: option.splits)
  then have r1: "length r1 < length r" by (rule parse_string_length)
  from result sk q ps obtain c r2 where sk1: "skip_ws r1 = c # r2"
    by (cases "skip_ws r1") auto
  then have r2: "length r2 < length r1" by (rule skip_ws_Cons_length)
  from result sk q ps sk1 have c: "c = CHR '':''"
    by (auto split: if_splits)
  with result sk q ps sk1 obtain v r3 where pv: "parse_value n r2 = Some (v, r3)"
    by (auto split: option.splits)
  from val [OF pv] have r3: "length r3 < length r2"
    and more_v: "\<And>m. length r2 \<le> m + length r3 \<Longrightarrow> parse_value m r2 = Some (v, r3)"
    by simp_all
  from result sk q ps sk1 c pv obtain s r4 where sk3: "skip_ws r3 = s # r4"
    by (cases "skip_ws r3") auto
  then have r4: "length r4 < length r3" by (rule skip_ws_Cons_length)
  show ?thesis
  proof (cases "s = CHR '',''")
    case True
    with result sk q ps sk1 c pv sk3 obtain kvs' where
      pm: "parse_members n r4 = Some (kvs', rest)" and kvs: "kvs = (k, v) # kvs'"
      by (auto split: option.splits)
    from members [OF pm] have less: "length rest < length r4"
      and more_m: "\<And>m. length r4 \<le> m + length rest \<Longrightarrow> parse_members m r4 = Some (kvs', rest)"
      by simp_all
    have "parse_members m cs = Some (kvs, rest)" if "length cs \<le> m + length rest" for m
    proof -
      from that r r1 r2 r3 r4 less obtain m' where m: "m = Suc m'" by (cases m) auto
      with that r r1 r2 r3 r4 less
      have "length r2 \<le> m' + length r3" "length r4 \<le> m' + length rest"
        by simp_all
      then have "parse_value m' r2 = Some (v, r3)" "parse_members m' r4 = Some (kvs', rest)"
        by (simp_all add: more_v more_m)
      with m sk q ps sk1 c sk3 True kvs show ?thesis by simp
    qed
    with r r1 r2 r3 r4 less show ?thesis by simp
  next
    case False
    with result sk q ps sk1 c pv sk3 have close: "s = CHR ''}''"
      and kvs: "kvs = [(k, v)]" "rest = r4"
      by (auto split: if_splits)
    have "parse_members m cs = Some (kvs, rest)" if "length cs \<le> m + length rest" for m
    proof -
      from that r r1 r2 r3 r4 kvs obtain m' where m: "m = Suc m'" by (cases m) auto
      with that r r1 r2 r3 r4 kvs have "length r2 \<le> m' + length r3" by simp
      then have "parse_value m' r2 = Some (v, r3)" by (simp add: more_v)
      with m sk q ps sk1 c sk3 False close kvs show ?thesis by simp
    qed
    with r r1 r2 r3 r4 kvs show ?thesis by simp
  qed
qed

lemma parse_bound:
  "(\<forall>cs v rest. parse_value n cs = Some (v, rest) \<longrightarrow>
        length rest < length cs
        \<and> (\<forall>m. length cs \<le> m + length rest \<longrightarrow> parse_value m cs = Some (v, rest)))
   \<and> (\<forall>cs vs rest. parse_elements n cs = Some (vs, rest) \<longrightarrow>
        length rest < length cs
        \<and> (\<forall>m. length cs \<le> m + length rest \<longrightarrow> parse_elements m cs = Some (vs, rest)))
   \<and> (\<forall>cs kvs rest. parse_members n cs = Some (kvs, rest) \<longrightarrow>
        length rest < length cs
        \<and> (\<forall>m. length cs \<le> m + length rest \<longrightarrow> parse_members m cs = Some (kvs, rest)))"
proof (induction n)
  case 0
  show ?case by simp
next
  case (Suc n)
  then have val: "\<And>cs v rest. parse_value n cs = Some (v, rest) \<Longrightarrow>
        length rest < length cs
        \<and> (\<forall>m. length cs \<le> m + length rest \<longrightarrow> parse_value m cs = Some (v, rest))"
    and elements: "\<And>cs vs rest. parse_elements n cs = Some (vs, rest) \<Longrightarrow>
        length rest < length cs
        \<and> (\<forall>m. length cs \<le> m + length rest \<longrightarrow> parse_elements m cs = Some (vs, rest))"
    and members: "\<And>cs kvs rest. parse_members n cs = Some (kvs, rest) \<Longrightarrow>
        length rest < length cs
        \<and> (\<forall>m. length cs \<le> m + length rest \<longrightarrow> parse_members m cs = Some (kvs, rest))"
    by blast+
  show ?case
    using parse_value_bound_step [OF members elements]
      parse_elements_bound_step [OF val elements]
      parse_members_bound_step [OF val members]
    by blast
qed

text \<open>
  The bound never decides the result: whatever the parser finds with some bound,
  \<open>JSON_parse\<close> finds with its own.
\<close>

lemma JSON_parse_bound:
  "JSON_parse text = Some v
     \<longleftrightarrow> (\<exists>n rest. parse_value n text = Some (v, rest) \<and> skip_ws rest = [])"
proof
  assume "JSON_parse text = Some v"
  then obtain rest where "parse_value (Suc (length text)) text = Some (v, rest)"
    and "skip_ws rest = []"
    unfolding JSON_parse_def
    by (cases "parse_value (Suc (length text)) text")
      (auto simp del: parse_value.simps split: if_splits)
  then show "\<exists>n rest. parse_value n text = Some (v, rest) \<and> skip_ws rest = []"
    by blast
next
  assume "\<exists>n rest. parse_value n text = Some (v, rest) \<and> skip_ws rest = []"
  then obtain n rest where pv: "parse_value n text = Some (v, rest)" and ws: "skip_ws rest = []"
    by blast
  from parse_bound [of n] pv
  have "parse_value (Suc (length text)) text = Some (v, rest)"
    by (metis le_add1 le_SucI add_Suc)
  with ws show "JSON_parse text = Some v"
    by (simp add: JSON_parse_def)
qed

section \<open>Properties of the detector\<close>

lemma list_ex_find: "list_ex P xs = (find P xs \<noteq> None)"
  by (induction xs) auto

lemma get_property_falsy: "\<not> truthy v \<Longrightarrow> get_property v k = None"
  by (cases v) auto

lemma scripts_or_empty:
  "get_property (case get_property pj ''scripts'' of None \<Rightarrow> JObject []
                 | Some v \<Rightarrow> if truthy v then v else JObject []) k = script_entry pj k"
  by (auto simp: script_entry_def get_property_falsy split: option.splits)

lemma detect_found:
  assumes "find is_package_json files = Some f"
  shows "detectProjectCommands files =
    (case JSON_parse (FileContent.content f) of
       None \<Rightarrow>
         \<lparr>type = ''Node.js'', setupCommand = Some ''npm install'', startCommand = None,
          followupMessage = warning_emoji @
            '' Error parsing package.json, but installing dependencies anyway...'',
          autoStart = None\<rparr>
     | Some pj \<Rightarrow>
         (case find (script_truthy pj) [''dev'', ''start'', ''preview''] of
            Some cmd \<Rightarrow>
              \<lparr>type = ''Node.js'', setupCommand = Some ''npm install'',
               startCommand = Some (''npm run '' @ cmd),
               followupMessage = rocket @
                 '' Jimmyverse.dev workflow: Installing dependencies and starting ''
                 @ cmd @ '' server for live preview...'',
               autoStart = None\<rparr>
          | None \<Rightarrow>
              \<lparr>type = ''Node.js'', setupCommand = Some ''npm install'',
               startCommand = Some ''npm start'',
               followupMessage = package_emoji @
                 '' Installing dependencies and attempting to start the project...'',
               autoStart = None\<rparr>))"
proof -
  have scripts: "(\<lambda>cmd. case get_property (case get_property pj ''scripts'' of None \<Rightarrow> JObject []
                 | Some v \<Rightarrow> if truthy v then v else JObject []) cmd of None \<Rightarrow> False | Some v \<Rightarrow> truthy v)
        = script_truthy pj" for pj
    by (rule ext) (simp only: scripts_or_empty script_truthy_def)
  have pkg: "(\<lambda>f. endsWith (path f) ''package.json'') = is_package_json"
    by (rule ext) (simp add: is_package_json_def)
  show ?thesis
    using assms
    unfolding detectProjectCommands_def Let_def list_ex_find scripts pkg
    by (simp split: option.splits)
qed

lemma detect_not_found:
  assumes "find is_package_json files = None"
  shows "detectProjectCommands files =
    (if list_ex is_index_html files then
        \<lparr>type = ''Static'', setupCommand = Some ''npm install -g serve'',
         startCommand = Some ''npx --yes serve'',
         followupMessage = globe_emoji @ '' Setting up static file server for live preview...'',
         autoStart = None\<rparr>
      else
        \<lparr>type = ''Unknown'', setupCommand = Some ''npm install'', startCommand = None,
         followupMessage = wrench_emoji @ '' Attempting to initialize project with npm...'',
         autoStart = None\<rparr>)"
proof -
  have pkg: "(\<lambda>f. endsWith (path f) ''package.json'') = is_package_json"
    by (rule ext) (simp add: is_package_json_def)
  have idx: "(\<lambda>f. endsWith (path f) ''index.html'') = is_index_html"
    by (rule ext) (simp add: is_index_html_def)
  show ?thesis
    using assms unfolding detectProjectCommands_def Let_def pkg idx list_ex_find by simp
qed

text \<open>
  C3, as amended. When the first file whose path ends in \<open>package.json\<close>, the one the
  detector reads, is not valid JSON, detection does not fail: it returns the type
  \<open>Node.js\<close>, the setup command \<open>npm install\<close>, no start command and the warning as
  follow-up message.
\<close>

theorem detect_malformed_package_json:
  assumes "find is_package_json files = Some f"
    and "JSON_parse (FileContent.content f) = None"
  shows "detectProjectCommands files =
           \<lparr>type = ''Node.js'', setupCommand = Some ''npm install'', startCommand = None,
            followupMessage = warning_emoji @
              '' Error parsing package.json, but installing dependencies anyway...'',
            autoStart = None\<rparr>"
  using assms by (simp add: detect_found)

theorem detect_malformed_package_json_witness:
  \<open>find is_package_json
      [\<lparr>FileContent.content = ''{"scripts": {"dev": "vite"'', path = ''package.json''\<rparr>]
     = Some \<lparr>FileContent.content = ''{"scripts": {"dev": "vite"'', path = ''package.json''\<rparr>
   \<and> JSON_parse ''{"scripts": {"dev": "vite"'' = None
   \<and> detectProjectCommands
        [\<lparr>FileContent.content = ''{"scripts": {"dev": "vite"'', path = ''package.json''\<rparr>]
     = \<lparr>type = ''Node.js'', setupCommand = Some ''npm install'', startCommand = None,
        followupMessage = warning_emoji @
          '' Error parsing package.json, but installing dependencies anyway...'',
        autoStart = None\<rparr>\<close>
proof -
  have found: \<open>find is_package_json
      [\<lparr>FileContent.content = ''{"scripts": {"dev": "vite"'', path = ''package.json''\<rparr>]
     = Some \<lparr>FileContent.content = ''{"scripts": {"dev": "vite"'', path = ''package.json''\<rparr>\<close>
    by (simp add: is_package_json_def endsWith_def)
  have bad: \<open>JSON_parse ''{"scripts": {"dev": "vite"'' = None\<close>
    by code_simp
  from detect_malformed_package_json [OF found] bad found show ?thesis
    by simp
qed

text \<open>
  C3 as stated fails: a list can hold a \<open>package.json\<close> that is not valid JSON behind
  another file whose path ends in \<open>package.json\<close>. The detector reads the first one, and
  here returns the start command \<open>npm start\<close> and no warning.
\<close>

theorem detect_malformed_later_counterexample:
  \<open>JSON_parse ''{'' = None
   \<and> detectProjectCommands
        [\<lparr>FileContent.content = ''{}'', path = ''my-package.json''\<rparr>,
         \<lparr>FileContent.content = ''{'', path = ''package.json''\<rparr>]
     = \<lparr>type = ''Node.js'', setupCommand = Some ''npm install'',
        startCommand = Some ''npm start'',
        followupMessage = package_emoji @
          '' Installing dependencies and attempting to start the project...'',
        autoStart = None\<rparr>
   \<and> startCommand (detectProjectCommands
        [\<lparr>FileContent.content = ''{}'', path = ''my-package.json''\<rparr>,
         \<lparr>FileContent.content = ''{'', path = ''package.json''\<rparr>])
     \<noteq> None\<close>
proof -
  have found: \<open>find is_package_json
      [\<lparr>FileContent.content = ''{}'', path = ''my-package.json''\<rparr>,
       \<lparr>FileContent.content = ''{'', path = ''package.json''\<rparr>]
     = Some \<lparr>FileContent.content = ''{}'', path = ''my-package.json''\<rparr>\<close>
    by (simp add: is_package_json_def endsWith_def suffix_to_prefix)
  have first: \<open>JSON_parse ''{}'' = Some (JObject [])\<close>
    by code_simp
  have bad: \<open>JSON_parse ''{'' = None\<close>
    by code_simp
  from detect_found [OF found] first bad show ?thesis
    by (simp add: script_truthy_def script_entry_def)
qed

text \<open>
  C8, as amended. When the first file whose path ends in \<open>package.json\<close>, the one the
  detector reads, parses as JSON and \<open>scripts\<close> has no entry \<open>dev\<close>, \<open>start\<close> or
  \<open>preview\<close> that JavaScript takes for true (so whenever \<open>scripts\<close> has none of the three
  keys), the result is the type \<open>Node.js\<close>, the setup command \<open>npm install\<close> and the fixed
  start command \<open>npm start\<close>, whether \<open>scripts\<close> has a key \<open>start\<close> or not.
\<close>

theorem detect_no_matching_script:
  assumes "find is_package_json files = Some f"
    and "JSON_parse (FileContent.content f) = Some packageJson"
    and "\<not> script_truthy packageJson ''dev''"
    and "\<not> script_truthy packageJson ''start''"
    and "\<not> script_truthy packageJson ''preview''"
  shows "detectProjectCommands files =
           \<lparr>type = ''Node.js'', setupCommand = Some ''npm install'',
            startCommand = Some ''npm start'',
            followupMessage = package_emoji @
              '' Installing dependencies and attempting to start the project...'',
            autoStart = None\<rparr>"
  using assms by (simp add: detect_found)

theorem detect_no_matching_script_witness:
  \<open>JSON_parse ''{"name": "x", "scripts": {"build": "tsc"}}''
     = Some (JObject [(''name'', JString ''x''),
                      (''scripts'', JObject [(''build'', JString ''tsc'')])])
   \<and> script_entry (JObject [(''name'', JString ''x''),
                      (''scripts'', JObject [(''build'', JString ''tsc'')])]) ''start'' = None
   \<and> detectProjectCommands
        [\<lparr>FileContent.content = ''{"name": "x", "scripts": {"build": "tsc"}}'',
          path = ''package.json''\<rparr>]
     = \<lparr>type = ''Node.js'', setupCommand = Some ''npm install'',
        startCommand = Some ''npm start'',
        followupMessage = package_emoji @
          '' Installing dependencies and attempting to start the project...'',
        autoStart = None\<rparr>
   \<and> JSON_parse ''{"scripts": {"start": "", "build": "tsc"}}''
     = Some (JObject [(''scripts'', JObject [(''start'', JString []),
                        (''build'', JString ''tsc'')])])
   \<and> script_entry (JObject [(''scripts'', JObject [(''start'', JString []),
                        (''build'', JString ''tsc'')])]) ''start'' = Some (JString [])
   \<and> detectProjectCommands
        [\<lparr>FileContent.content = ''{"scripts": {"start": "", "build": "tsc"}}'',
          path = ''package.json''\<rparr>]
     = \<lparr>type = ''Node.js'', setupCommand = Some ''npm install'',
        startCommand = Some ''npm start'',
        followupMessage = package_emoji @
          '' Installing dependencies and attempting to start the project...'',
        autoStart = None\<rparr>\<close>
proof -
  let ?none = \<open>JObject [(''name'', JString ''x''),
                      (''scripts'', JObject [(''build'', JString ''tsc'')])]\<close>
  let ?empty = \<open>JObject [(''scripts'', JObject [(''start'', JString []),
                        (''build'', JString ''tsc'')])]\<close>
  have found1: \<open>find is_package_json
      [\<lparr>FileContent.content = ''{"name": "x", "scripts": {"build": "tsc"}}'',
        path = ''package.json''\<rparr>]
     = Some \<lparr>FileContent.content = ''{"name": "x", "scripts": {"build": "tsc"}}'',
             path = ''package.json''\<rparr>\<close>
    by (simp add: is_package_json_def endsWith_def)
  have parsed1: \<open>JSON_parse (FileContent.content
        \<lparr>FileContent.content = ''{"name": "x", "scripts": {"build": "tsc"}}'',
          path = ''package.json''\<rparr>) = Some ?none\<close>
    unfolding FileContent.simps by code_simp
  have entries1: "\<not> script_truthy ?none ''dev''" "\<not> script_truthy ?none ''start''"
    "\<not> script_truthy ?none ''preview''" "script_entry ?none ''start'' = None"
    by (simp_all add: script_truthy_def script_entry_def)
  have found2: \<open>find is_package_json
      [\<lparr>FileContent.content = ''{"scripts": {"start": "", "build": "tsc"}}'',
        path = ''package.json''\<rparr>]
     = Some \<lparr>FileContent.content = ''{"scripts": {"start": "", "build": "tsc"}}'',
             path = ''package.json''\<rparr>\<close>
    by (simp add: is_package_json_def endsWith_def)
  have parsed2: \<open>JSON_parse (FileContent.content
        \<lparr>FileContent.content = ''{"scripts": {"start": "", "build": "tsc"}}'',
          path = ''package.json''\<rparr>) = Some ?empty\<close>
    unfolding FileContent.simps by code_simp
  have entries2: "\<not> script_truthy ?empty ''dev''" "\<not> script_truthy ?empty ''start''"
    "\<not> script_truthy ?empty ''preview''" "script_entry ?empty ''start'' = Some (JString [])"
    by (simp_all add: script_truthy_def script_entry_def)
  note one = detect_no_matching_script [OF found1 parsed1 entries1(1,2,3)]
  note two = detect_no_matching_script [OF found2 parsed2 entries2(1,2,3)]
  from parsed1 parsed2
  have \<open>JSON_parse ''{"name": "x", "scripts": {"build": "tsc"}}'' = Some ?none\<close>
    and \<open>JSON_parse ''{"scripts": {"start": "", "build": "tsc"}}'' = Some ?empty\<close>
    by simp_all
  with one two entries1(4) entries2(4) show ?thesis
    by (intro conjI)
qed

text \<open>
  C8 as stated fails: a list can hold a \<open>package.json\<close> with none of the three keys behind
  another file whose path ends in \<open>package.json\<close>. The detector reads the first one, and
  here returns the start command \<open>npm run dev\<close>.
\<close>

theorem detect_no_script_later_counterexample:
  \<open>JSON_parse ''{"scripts": {"build": "tsc"}}''
     = Some (JObject [(''scripts'', JObject [(''build'', JString ''tsc'')])])
   \<and> script_entry (JObject [(''scripts'', JObject [(''build'', JString ''tsc'')])]) ''dev''
     = None
   \<and> script_entry (JObject [(''scripts'', JObject [(''build'', JString ''tsc'')])]) ''start''
     = None
   \<and> script_entry (JObject [(''scripts'', JObject [(''build'', JString ''tsc'')])]) ''preview''
     = None
   \<and> startCommand (detectProjectCommands
        [\<lparr>FileContent.content = ''{"scripts": {"dev": "vite"}}'',
          path = ''apps/web/package.json''\<rparr>,
         \<lparr>FileContent.content = ''{"scripts": {"build": "tsc"}}'',
          path = ''package.json''\<rparr>])
     = Some ''npm run dev''
   \<and> startCommand (detectProjectCommands
        [\<lparr>FileContent.content = ''{"scripts": {"dev": "vite"}}'',
          path = ''apps/web/package.json''\<rparr>,
         \<lparr>FileContent.content = ''{"scripts": {"build": "tsc"}}'',
          path = ''package.json''\<rparr>])
     \<noteq> Some ''npm start''\<close>
proof -
  have found: \<open>find is_package_json
      [\<lparr>FileContent.content = ''{"scripts": {"dev": "vite"}}'',
        path = ''apps/web/package.json''\<rparr>,
       \<lparr>FileContent.content = ''{"scripts": {"build": "tsc"}}'',
        path = ''package.json''\<rparr>]
     = Some \<lparr>FileContent.content = ''{"scripts": {"dev": "vite"}}'',
             path = ''apps/web/package.json''\<rparr>\<close>
    by (simp add: is_package_json_def endsWith_def suffix_to_prefix)
  have first: \<open>JSON_parse ''{"scripts": {"dev": "vite"}}''
     = Some (JObject [(''scripts'', JObject [(''dev'', JString ''vite'')])])\<close>
    by code_simp
  have later: \<open>JSON_parse ''{"scripts": {"build": "tsc"}}''
     = Some (JObject [(''scripts'', JObject [(''build'', JString ''tsc'')])])\<close>
    by code_simp
  from detect_found [OF found] first later show ?thesis
    by (simp add: script_truthy_def script_entry_def)
qed

text \<open>
  C2, as amended. When the \<open>package.json\<close> the detector reads parses as JSON, the start
  command is \<open>npm run\<close> followed by the first of \<open>dev\<close>, \<open>start\<close>, \<open>preview\<close> whose entry
  in \<open>scripts\<close> JavaScript takes for true (a non-empty string, for one): \<open>npm run dev\<close>
  whenever \<open>scripts.dev\<close> is such an entry, whatever \<open>start\<close> and \<open>preview\<close> are.
\<close>

theorem detect_script_priority:
  assumes "find is_package_json files = Some f"
    and "JSON_parse (FileContent.content f) = Some packageJson"
  shows "type (detectProjectCommands files) = ''Node.js''
       \<and> setupCommand (detectProjectCommands files) = Some ''npm install''
       \<and> (script_truthy packageJson ''dev'' \<longrightarrow>
            startCommand (detectProjectCommands files) = Some ''npm run dev'')
       \<and> (\<not> script_truthy packageJson ''dev'' \<and> script_truthy packageJson ''start'' \<longrightarrow>
            startCommand (detectProjectCommands files) = Some ''npm run start'')
       \<and> (\<not> script_truthy packageJson ''dev'' \<and> \<not> script_truthy packageJson ''start''
            \<and> script_truthy packageJson ''preview'' \<longrightarrow>
            startCommand (detectProjectCommands files) = Some ''npm run preview'')"
  using assms by (simp add: detect_found)

theorem detect_script_priority_witness:
  \<open>find is_package_json
      [\<lparr>FileContent.content = ''{"scripts": {"preview": "p", "start": "s", "dev": "vite"}}'',
        path = ''package.json''\<rparr>]
     = Some \<lparr>FileContent.content = ''{"scripts": {"preview": "p", "start": "s", "dev": "vite"}}'',
             path = ''package.json''\<rparr>
   \<and> JSON_parse ''{"scripts": {"preview": "p", "start": "s", "dev": "vite"}}''
     = Some (JObject [(''scripts'', JObject [(''preview'', JString ''p''),
                (''start'', JString ''s''), (''dev'', JString ''vite'')])])
   \<and> script_truthy (JObject [(''scripts'', JObject [(''preview'', JString ''p''),
                (''start'', JString ''s''), (''dev'', JString ''vite'')])]) ''dev''
   \<and> startCommand (detectProjectCommands
        [\<lparr>FileContent.content = ''{"scripts": {"preview": "p", "start": "s", "dev": "vite"}}'',
          path = ''package.json''\<rparr>])
     = Some ''npm run dev''\<close>
proof -
  have found: \<open>find is_package_json
      [\<lparr>FileContent.content = ''{"scripts": {"preview": "p", "start": "s", "dev": "vite"}}'',
        path = ''package.json''\<rparr>]
     = Some \<lparr>FileContent.content = ''{"scripts": {"preview": "p", "start": "s", "dev": "vite"}}'',
             path = ''package.json''\<rparr>\<close>
    by (simp add: is_package_json_def endsWith_def)
  have parsed: \<open>JSON_parse ''{"scripts": {"preview": "p", "start": "s", "dev": "vite"}}''
     = Some (JObject [(''scripts'', JObject [(''preview'', JString ''p''),
                (''start'', JString ''s''), (''dev'', JString ''vite'')])])\<close>
    by code_simp
  from detect_script_priority [OF found, of "JObject [(''scripts'', JObject [(''preview'', JString ''p''),
                (''start'', JString ''s''), (''dev'', JString ''vite'')])]"]
    parsed found show ?thesis
    by (simp add: script_truthy_def script_entry_def)
qed

text \<open>
  C2 as stated fails: a \<open>package.json\<close> that parses as JSON and has an entry \<open>scripts.dev\<close>,
  the empty string, beside a \<open>start\<close> script gets the start command \<open>npm run start\<close>.
\<close>

theorem detect_dev_entry_counterexample:
  \<open>JSON_parse ''{"scripts": {"dev": "", "start": "node ."}}''
     = Some (JObject [(''scripts'', JObject [(''dev'', JString []),
                (''start'', JString ''node .'')])])
   \<and> script_entry (JObject [(''scripts'', JObject [(''dev'', JString []),
                (''start'', JString ''node .'')])]) ''dev'' = Some (JString [])
   \<and> startCommand (detectProjectCommands
        [\<lparr>FileContent.content = ''{"scripts": {"dev": "", "start": "node ."}}'',
          path = ''package.json''\<rparr>])
     = Some ''npm run start''
   \<and> startCommand (detectProjectCommands
        [\<lparr>FileContent.content = ''{"scripts": {"dev": "", "start": "node ."}}'',
          path = ''package.json''\<rparr>])
     \<noteq> Some ''npm run dev''\<close>
proof -
  have found: \<open>find is_package_json
      [\<lparr>FileContent.content = ''{"scripts": {"dev": "", "start": "node ."}}'',
        path = ''package.json''\<rparr>]
     = Some \<lparr>FileContent.content = ''{"scripts": {"dev": "", "start": "node ."}}'',
             path = ''package.json''\<rparr>\<close>
    by (simp add: is_package_json_def endsWith_def)
  have parsed: \<open>JSON_parse ''{"scripts": {"dev": "", "start": "node ."}}''
     = Some (JObject [(''scripts'', JObject [(''dev'', JString []),
                (''start'', JString ''node .'')])])\<close>
    by code_simp
  from detect_found [OF found] parsed show ?thesis
    by (simp add: script_truthy_def script_entry_def)
qed

text \<open>
  C9. Whatever the files, the result of the detector has a non-empty follow-up message:
  each branch (the script found, the fallback, the parse failure, \<open>index.html\<close>, the
  unknown project) sets one.
\<close>

theorem followupMessage_nonempty:
  "followupMessage (detectProjectCommands files) \<noteq> []"
proof (cases "find is_package_json files")
  case None
  then show ?thesis
    by (simp add: detect_not_found globe_emoji_def wrench_emoji_def)
next
  case (Some f)
  then show ?thesis
    by (simp add: detect_found rocket_def warning_emoji_def package_emoji_def
        split: option.splits)
qed


theorem followupMessage_nonempty_witness:
  "followupMessage (detectProjectCommands []) \<noteq> []"
  by (rule followupMessage_nonempty)

lemma find_first:
  assumes "\<forall>g\<in>set before. \<not> P g" and "P f"
  shows "find P (before @ f # after) = Some f"
  using assms by (induction before) auto

text \<open>
  C10. The detector knows its marker files by the end of the path, not by the file name.
  The type is \<open>Node.js\<close> exactly when the path of some file ends in \<open>package.json\<close>
  (\<open>sub/package.json\<close> and \<open>my-package.json\<close> do). The content parsed is then that of the
  first such file of the list: the result is what \<open>JSON.parse\<close> of that content decides
  (the warning when it fails, else the first script of \<open>dev\<close>, \<open>start\<close>, \<open>preview\<close> it
  holds, else \<open>npm start\<close>), whatever stands before and after the file. The type is
  \<open>Static\<close> exactly when no path ends in \<open>package.json\<close> and some path ends in
  \<open>index.html\<close>.
\<close>

theorem detect_by_path_suffix:
  "((type (detectProjectCommands files) = ''Node.js'')
      = (\<exists>g\<in>set files. endsWith (path g) ''package.json''))
   \<and> (files = before @ f # after
        \<and> (\<forall>g\<in>set before. \<not> endsWith (path g) ''package.json'')
        \<and> endsWith (path f) ''package.json''
        \<longrightarrow> detectProjectCommands files =
              (case JSON_parse (FileContent.content f) of
                 None \<Rightarrow>
                   \<lparr>type = ''Node.js'', setupCommand = Some ''npm install'',
                    startCommand = None,
                    followupMessage = warning_emoji @
                      '' Error parsing package.json, but installing dependencies anyway...'',
                    autoStart = None\<rparr>
               | Some packageJson \<Rightarrow>
                   (case find (script_truthy packageJson) [''dev'', ''start'', ''preview''] of
                      Some cmd \<Rightarrow>
                        \<lparr>type = ''Node.js'', setupCommand = Some ''npm install'',
                         startCommand = Some (''npm run '' @ cmd),
                         followupMessage = rocket @
                           '' Jimmyverse.dev workflow: Installing dependencies and starting ''
                           @ cmd @ '' server for live preview...'',
                         autoStart = None\<rparr>
                    | None \<Rightarrow>
                        \<lparr>type = ''Node.js'', setupCommand = Some ''npm install'',
                         startCommand = Some ''npm start'',
                         followupMessage = package_emoji @
                           '' Installing dependencies and attempting to start the project...'',
                         autoStart = None\<rparr>))
            \<and> detectProjectCommands files = detectProjectCommands [f])
   \<and> ((type (detectProjectCommands files) = ''Static'')
      = ((\<forall>g\<in>set files. \<not> endsWith (path g) ''package.json'')
         \<and> (\<exists>g\<in>set files. endsWith (path g) ''index.html'')))"
proof (intro conjI impI)
  show "(type (detectProjectCommands files) = ''Node.js'')
      = (\<exists>g\<in>set files. endsWith (path g) ''package.json'')"
  proof (cases "find is_package_json files")
    case None
    then have "\<not> (\<exists>g\<in>set files. endsWith (path g) ''package.json'')"
      by (auto simp: find_None_iff is_package_json_def)
    with None show ?thesis by (simp add: detect_not_found)
  next
    case (Some f')
    then have "\<exists>g\<in>set files. endsWith (path g) ''package.json''"
      by (auto simp: find_Some_iff is_package_json_def)
    with Some show ?thesis by (simp add: detect_found split: option.splits)
  qed
next
  assume h: "files = before @ f # after
        \<and> (\<forall>g\<in>set before. \<not> endsWith (path g) ''package.json'')
        \<and> endsWith (path f) ''package.json''"
  then have "find is_package_json files = Some f"
    by (simp add: find_first is_package_json_def)
  then show "detectProjectCommands files =
              (case JSON_parse (FileContent.content f) of
                 None \<Rightarrow>
                   \<lparr>type = ''Node.js'', setupCommand = Some ''npm install'',
                    startCommand = None,
                    followupMessage = warning_emoji @
                      '' Error parsing package.json, but installing dependencies anyway...'',
                    autoStart = None\<rparr>
               | Some packageJson \<Rightarrow>
                   (case find (script_truthy packageJson) [''dev'', ''start'', ''preview''] of
                      Some cmd \<Rightarrow>
                        \<lparr>type = ''Node.js'', setupCommand = Some ''npm install'',
                         startCommand = Some (''npm run '' @ cmd),
                         followupMessage = rocket @
                           '' Jimmyverse.dev workflow: Installing dependencies and starting ''
                           @ cmd @ '' server for live preview...'',
                         autoStart = None\<rparr>
                    | None \<Rightarrow>
                        \<lparr>type = ''Node.js'', setupCommand = Some ''npm install'',
                         startCommand = Some ''npm start'',
                         followupMessage = package_emoji @
                           '' Installing dependencies and attempting to start the project...'',
                         autoStart = None\<rparr>))"
    by (rule detect_found)
next
  assume h: "files = before @ f # after
        \<and> (\<forall>g\<in>set before. \<not> endsWith (path g) ''package.json'')
        \<and> endsWith (path f) ''package.json''"
  then have "find is_package_json files = Some f"
    by (simp add: find_first is_package_json_def)
  moreover from h have "find is_package_json [f] = Some f"
    by (simp add: is_package_json_def)
  ultimately show "detectProjectCommands files = detectProjectCommands [f]"
    by (simp add: detect_found)
next
  show "(type (detectProjectCommands files) = ''Static'')
      = ((\<forall>g\<in>set files. \<not> endsWith (path g) ''package.json'')
         \<and> (\<exists>g\<in>set files. endsWith (path g) ''index.html''))"
  proof (cases "find is_package_json files")
    case None
    then have "\<forall>g\<in>set files. \<not> endsWith (path g) ''package.json''"
      by (auto simp: find_None_iff is_package_json_def)
    with None show ?thesis
      by (simp add: detect_not_found list_ex_iff is_index_html_def)
  next
    case (Some f')
    then have "\<exists>g\<in>set files. endsWith (path g) ''package.json''"
      by (auto simp: find_Some_iff is_package_json_def)
    with Some show ?thesis by (auto simp: detect_found split: option.splits)
  qed
qed

theorem detect_by_path_suffix_witness:
  \<open>type (detectProjectCommands
      [\<lparr>FileContent.content = ''<html></html>'', path = ''public/index.html''\<rparr>,
       \<lparr>FileContent.content = ''{"scripts": {"start": "node ."}}'', path = ''sub/my-package.json''\<rparr>,
       \<lparr>FileContent.content = ''{"scripts": {"dev": "vite"}}'', path = ''package.json''\<rparr>])
     = ''Node.js''
   \<and> JSON_parse ''{"scripts": {"start": "node ."}}''
     = Some (JObject [(''scripts'', JObject [(''start'', JString ''node .'')])])
   \<and> startCommand (detectProjectCommands
      [\<lparr>FileContent.content = ''<html></html>'', path = ''public/index.html''\<rparr>,
       \<lparr>FileContent.content = ''{"scripts": {"start": "node ."}}'', path = ''sub/my-package.json''\<rparr>,
       \<lparr>FileContent.content = ''{"scripts": {"dev": "vite"}}'', path = ''package.json''\<rparr>])
     = Some ''npm run start''
   \<and> detectProjectCommands
      [\<lparr>FileContent.content = ''<html></html>'', path = ''public/index.html''\<rparr>,
       \<lparr>FileContent.content = ''{"scripts": {"start": "node ."}}'', path = ''sub/my-package.json''\<rparr>,
       \<lparr>FileContent.content = ''{"scripts": {"dev": "vite"}}'', path = ''package.json''\<rparr>]
     = detectProjectCommands
      [\<lparr>FileContent.content = ''{"scripts": {"start": "node ."}}'', path = ''sub/my-package.json''\<rparr>]
   \<and> type (detectProjectCommands
      [\<lparr>FileContent.content = ''<html></html>'', path = ''public/index.html''\<rparr>])
     = ''Static''\<close>
proof -
  let ?idx = \<open>\<lparr>FileContent.content = ''<html></html>'', path = ''public/index.html''\<rparr>\<close>
  let ?sub = \<open>\<lparr>FileContent.content = ''{"scripts": {"start": "node ."}}'', path = ''sub/my-package.json''\<rparr>\<close>
  let ?pkg = \<open>\<lparr>FileContent.content = ''{"scripts": {"dev": "vite"}}'', path = ''package.json''\<rparr>\<close>
  let ?json = \<open>JObject [(''scripts'', JObject [(''start'', JString ''node .'')])]\<close>
  have some: "\<exists>g\<in>set [?idx, ?sub, ?pkg]. endsWith (path g) ''package.json''"
    by (simp add: endsWith_def suffix_to_prefix)
  have first: "[?idx, ?sub, ?pkg] = [?idx] @ ?sub # [?pkg]
        \<and> (\<forall>g\<in>set [?idx]. \<not> endsWith (path g) ''package.json'')
        \<and> endsWith (path ?sub) ''package.json''"
    by (simp add: endsWith_def suffix_to_prefix)
  have static: "(\<forall>g\<in>set [?idx]. \<not> endsWith (path g) ''package.json'')
         \<and> (\<exists>g\<in>set [?idx]. endsWith (path g) ''index.html'')"
    by (simp add: endsWith_def suffix_to_prefix)
  have parsed: \<open>JSON_parse ''{"scripts": {"start": "node ."}}'' = Some ?json\<close>
    by code_simp
  have scripts: "find (script_truthy ?json) [''dev'', ''start'', ''preview''] = Some ''start''"
    by (simp add: script_truthy_def script_entry_def)
  note all = detect_by_path_suffix [of "[?idx, ?sub, ?pkg]" "[?idx]" ?sub "[?pkg]"]
  note one = detect_by_path_suffix [of "[?idx]" "[]" ?idx "[]"]
  have 1: "type (detectProjectCommands [?idx, ?sub, ?pkg]) = ''Node.js''"
    by (rule iffD2 [OF conjunct1 [OF all] some])
  note read = mp [OF conjunct1 [OF conjunct2 [OF all]] first]
  from conjunct1 [OF read] parsed scripts
  have 2: "startCommand (detectProjectCommands [?idx, ?sub, ?pkg]) = Some ''npm run start''"
    by simp
  have 3: "detectProjectCommands [?idx, ?sub, ?pkg] = detectProjectCommands [?sub]"
    by (rule conjunct2 [OF read])
  have 4: "type (detectProjectCommands [?idx]) = ''Static''"
    by (rule iffD2 [OF conjunct2 [OF conjunct2 [OF one]] static])
  from 1 parsed 2 3 4 show ?thesis by (intro conjI)
qed

section \<open>Properties of the setup message\<close>

lemma createCommandsMessage_eq:
  "createCommandsMessage generateId newDate commands w =
     (Some \<lparr>role = assistant,
            content =
              NL @ (if followupMessage commands \<noteq> []
                    then NL @ NL @ followupMessage commands
                    else rocket @ '' Jimmyverse.dev: Setting up your project with live preview...'')
              @ NL @ setup_artifact
                  (if string_truthy (setupCommand commands) \<or> string_truthy (startCommand commands)
                   then (if string_truthy (setupCommand commands)
                         then [Shell (the (setupCommand commands))] else [])
                        @ (if string_truthy (startCommand commands)
                           then [Start (the (startCommand commands))] else [])
                   else [Shell ''npm install'', Start ''npm run dev'']),
            id' = fst (generateId w),
            createdAt = Some (fst (newDate (snd (generateId w))))\<rparr>,
      snd (newDate (snd (generateId w))))"
  by (simp add: createCommandsMessage_def Let_def case_prod_beta setup_artifact_def NL_def)

text \<open>
  C4. \<open>createCommandsMessage\<close> always returns a message, never \<open>null\<close>. The message ends
  with an artifact block whose list of actions is not empty and has no \<open>start\<close> action
  before a \<open>shell\<close> action: the setup command, when it is given and not empty, then the
  start command, when it is given and not empty; and when neither is, exactly the pair
  \<open>npm install\<close>, \<open>npm run dev\<close>.
\<close>

theorem createCommandsMessage_actions:
  "\<exists>m w' preamble acts.
     createCommandsMessage generateId newDate commands w = (Some m, w')
     \<and> role m = assistant
     \<and> content m = preamble @ setup_artifact acts
     \<and> acts \<noteq> []
     \<and> setup_precedes_start acts
     \<and> (string_truthy (setupCommand commands) \<or> string_truthy (startCommand commands) \<longrightarrow>
          acts = (if string_truthy (setupCommand commands)
                  then [Shell (the (setupCommand commands))] else [])
                 @ (if string_truthy (startCommand commands)
                    then [Start (the (startCommand commands))] else []))
     \<and> (\<not> string_truthy (setupCommand commands) \<and> \<not> string_truthy (startCommand commands) \<longrightarrow>
          acts = [Shell ''npm install'', Start ''npm run dev''])"
proof -
  let ?acts = "if string_truthy (setupCommand commands) \<or> string_truthy (startCommand commands)
               then (if string_truthy (setupCommand commands)
                     then [Shell (the (setupCommand commands))] else [])
                    @ (if string_truthy (startCommand commands)
                       then [Start (the (startCommand commands))] else [])
               else [Shell ''npm install'', Start ''npm run dev'']"
  let ?pre = "NL @ (if followupMessage commands \<noteq> []
                    then NL @ NL @ followupMessage commands
                    else rocket @ '' Jimmyverse.dev: Setting up your project with live preview...'')
              @ NL"
  let ?m = "\<lparr>role = assistant, content = ?pre @ setup_artifact ?acts,
             id' = fst (generateId w),
             createdAt = Some (fst (newDate (snd (generateId w))))\<rparr>"
  have "createCommandsMessage generateId newDate commands w
          = (Some ?m, snd (newDate (snd (generateId w))))"
    by (simp add: createCommandsMessage_eq)
  moreover have "role ?m = assistant" by simp
  moreover have "content ?m = ?pre @ setup_artifact ?acts" by simp
  moreover have "?acts \<noteq> []" by simp
  moreover have "setup_precedes_start ?acts" by simp
  moreover have "string_truthy (setupCommand commands) \<or> string_truthy (startCommand commands) \<longrightarrow>
          ?acts = (if string_truthy (setupCommand commands)
                  then [Shell (the (setupCommand commands))] else [])
                 @ (if string_truthy (startCommand commands)
                    then [Start (the (startCommand commands))] else [])"
    by simp
  moreover have "\<not> string_truthy (setupCommand commands) \<and> \<not> string_truthy (startCommand commands) \<longrightarrow>
          ?acts = [Shell ''npm install'', Start ''npm run dev'']"
    by simp
  ultimately show ?thesis by blast
qed

theorem createCommandsMessage_actions_witness:
  "\<exists>m w' preamble.
     createCommandsMessage (\<lambda>w. (''id-1'', w)) (\<lambda>w. (0, w))
       \<lparr>type = ''Unknown'', setupCommand = None, startCommand = None,
        followupMessage = [], autoStart = None\<rparr> ()
       = (Some m, w')
     \<and> content m = preamble @ setup_artifact [Shell ''npm install'', Start ''npm run dev'']"
proof -
  from createCommandsMessage_actions [of "\<lambda>w. (''id-1'', w)" "\<lambda>w. (0, w)"
      "\<lparr>type = ''Unknown'', setupCommand = None, startCommand = None,
        followupMessage = [], autoStart = None\<rparr>" "()"]
  obtain m w' preamble acts where
    "createCommandsMessage (\<lambda>w. (''id-1'', w)) (\<lambda>w. (0, w))
       \<lparr>type = ''Unknown'', setupCommand = None, startCommand = None,
        followupMessage = [], autoStart = None\<rparr> ()
       = (Some m, w')"
    and "content m = preamble @ setup_artifact acts"
    and "\<not> string_truthy (setupCommand \<lparr>type = ''Unknown'', setupCommand = None, startCommand = None,
        followupMessage = [], autoStart = None\<rparr>) \<and> \<not> string_truthy (startCommand \<lparr>type = ''Unknown'', setupCommand = None, startCommand = None,
        followupMessage = [], autoStart = None\<rparr>) \<longrightarrow>
          acts = [Shell ''npm install'', Start ''npm run dev'']"
    by blast
  then show ?thesis by auto
qed

section \<open>Properties of the folder import\<close>

lemma those_readFile:
  "those (map readFile files) = (if readable files then Some (contents_of files) else None)"
  by (induction files) (auto simp: readable_def contents_of_def readFile_def split: option.splits)

lemma sublist_join:
  "x \<in> set xs \<Longrightarrow> sublist x (join sep xs)"
proof (induction sep xs rule: join.induct)
  case (1 sep)
  then show ?case by simp
next
  case (2 sep y)
  then show ?case by simp
next
  case (3 sep y z zs)
  show ?case
  proof (cases "x = y")
    case True
    then show ?thesis by simp
  next
    case False
    with 3 have "sublist x (join sep (z # zs))" by simp
    then have "sublist x ((y @ sep) @ join sep (z # zs))"
      by (metis sublist_append)
    then show ?thesis by simp
  qed
qed

lemma createChatFromFolder_eq:
  assumes "readable files"
  shows "\<exists>userId userDate filesId filesDate setupId w'.
    createChatFromFolder generateId newDate files binaryFiles folderName w =
    (Inr [Some \<lparr>role = user,
                content = ''Import the '' @ [CHR 0x22] @ folderName @ [CHR 0x22] @ '' folder'',
                id' = userId, createdAt = Some userDate\<rparr>,
          Some \<lparr>role = assistant,
                content = rocket @ '' Jimmyverse.dev: I'' @ [CHR 0x27]
                  @ ''ve imported the contents of the '' @ [CHR 0x22] @ folderName @ [CHR 0x22]
                  @ '' folder and I'' @ [CHR 0x27]
                  @ ''m setting up the development environment with live preview.''
                  @ (if length binaryFiles > 0
                     then NL @ NL @ ''Skipped '' @ Number_toString (length binaryFiles)
                            @ '' binary files:'' @ NL
                            @ join NL (map (\<lambda>f. ''- '' @ f) binaryFiles)
                     else [])
                  @ NL @ NL @ files_artifact (contents_of files),
                id' = filesId, createdAt = Some filesDate\<rparr>,
          Some \<lparr>role = user,
                content = wrench_emoji @
                  '' Jimmyverse.dev: Setup dependencies and start development server for live preview'',
                id' = setupId, createdAt = None\<rparr>,
          fst (createCommandsMessage generateId newDate
                 (detectProjectCommands (contents_of files)) w)],
     w')"
proof -
  have some: "fst (createCommandsMessage generateId newDate c w) \<noteq> None" for c
    by (simp add: createCommandsMessage_eq)
  show ?thesis
    using assms some [of "detectProjectCommands (contents_of files)"]
    by (auto simp: createChatFromFolder_def those_readFile Let_def case_prod_beta
        files_artifact_def file_action_def [abs_def] split: option.splits)
qed

lemma createChatFromFolder_unreadable:
  "\<not> readable files \<Longrightarrow>
     createChatFromFolder generateId newDate files binaryFiles folderName w = (Inl ReadError, w)"
  by (simp add: createChatFromFolder_def those_readFile)

text \<open>
  C5. When every file can be read, \<open>createChatFromFolder\<close> returns four messages in this
  order: the user's request to import the folder; the assistant's message, which ends
  with one artifact block holding the action block of every file read, its content
  escaped, in the order of the files; the user's request to set up and start; and the
  message \<open>createCommandsMessage\<close> made for the commands detected in the files. (When
  a file cannot be read the import fails as a whole.)
\<close>

theorem createChatFromFolder_order:
  assumes "readable files"
  shows "\<exists>m1 m2 m3 m4 w' w'' preamble.
    createChatFromFolder generateId newDate files binaryFiles folderName w
      = (Inr [Some m1, Some m2, Some m3, Some m4], w')
    \<and> role m1 = user
    \<and> content m1 = ''Import the '' @ [CHR 0x22] @ folderName @ [CHR 0x22] @ '' folder''
    \<and> role m2 = assistant
    \<and> content m2 = preamble @ files_artifact (contents_of files)
    \<and> (\<forall>file\<in>set (contents_of files). sublist (file_action file) (content m2))
    \<and> role m3 = user
    \<and> content m3 = wrench_emoji @
          '' Jimmyverse.dev: Setup dependencies and start development server for live preview''
    \<and> role m4 = assistant
    \<and> createCommandsMessage generateId newDate (detectProjectCommands (contents_of files)) w
          = (Some m4, w'')"
proof -
  from createChatFromFolder_eq [OF assms, of generateId newDate binaryFiles folderName w]
  obtain m1 m2 m3 w' where
    result: "createChatFromFolder generateId newDate files binaryFiles folderName w
      = (Inr [Some m1, Some m2, Some m3,
              fst (createCommandsMessage generateId newDate
                     (detectProjectCommands (contents_of files)) w)], w')"
    and m1: "role m1 = user"
      "content m1 = ''Import the '' @ [CHR 0x22] @ folderName @ [CHR 0x22] @ '' folder''"
    and m2: "role m2 = assistant"
      "content m2 = (rocket @ '' Jimmyverse.dev: I'' @ [CHR 0x27]
                  @ ''ve imported the contents of the '' @ [CHR 0x22] @ folderName @ [CHR 0x22]
                  @ '' folder and I'' @ [CHR 0x27]
                  @ ''m setting up the development environment with live preview.''
                  @ (if length binaryFiles > 0
                     then NL @ NL @ ''Skipped '' @ Number_toString (length binaryFiles)
                            @ '' binary files:'' @ NL
                            @ join NL (map (\<lambda>f. ''- '' @ f) binaryFiles)
                     else [])
                  @ NL @ NL) @ files_artifact (contents_of files)"
    and m3: "role m3 = user"
      "content m3 = wrench_emoji @
          '' Jimmyverse.dev: Setup dependencies and start development server for live preview''"
    by fastforce
  obtain m4 w'' where
    m4: "createCommandsMessage generateId newDate (detectProjectCommands (contents_of files)) w
          = (Some m4, w'')" "role m4 = assistant"
    by (simp add: createCommandsMessage_eq)
  have embedded: "sublist (file_action fc) (content m2)"
    if "fc \<in> set (contents_of files)" for fc
  proof -
    from that have "sublist (file_action fc) (join (NL @ NL) (map file_action (contents_of files)))"
      by (simp add: sublist_join)
    then obtain ps ss where
      "join (NL @ NL) (map file_action (contents_of files)) = ps @ file_action fc @ ss"
      by (auto simp: sublist_def)
    then have "content m2 = (rocket @ '' Jimmyverse.dev: I'' @ [CHR 0x27]
                  @ ''ve imported the contents of the '' @ [CHR 0x22] @ folderName @ [CHR 0x22]
                  @ '' folder and I'' @ [CHR 0x27]
                  @ ''m setting up the development environment with live preview.''
                  @ (if length binaryFiles > 0
                     then NL @ NL @ ''Skipped '' @ Number_toString (length binaryFiles)
                            @ '' binary files:'' @ NL
                            @ join NL (map (\<lambda>f. ''- '' @ f) binaryFiles)
                     else [])
                  @ NL @ NL
                  @ ''<boltArtifact id='' @ [CHR 0x22] @ ''imported-files'' @ [CHR 0x22]
                  @ '' title='' @ [CHR 0x22] @ ''Imported Files'' @ [CHR 0x22]
                  @ '' type='' @ [CHR 0x22] @ ''bundled'' @ [CHR 0x22] @ '' >'' @ NL @ ps)
                @ file_action fc @ (ss @ NL @ ''</boltArtifact>'')"
      using m2 by (simp add: files_artifact_def)
    then show ?thesis
      by (metis sublist_appendI)
  qed
  from result m4 have "createChatFromFolder generateId newDate files binaryFiles folderName w
      = (Inr [Some m1, Some m2, Some m3, Some m4], w')"
    by simp
  with m1 m2 m3 m4 embedded show ?thesis by blast
qed

theorem createChatFromFolder_order_witness:
  \<open>readable
      [\<lparr>webkitRelativePath = ''proj/src/a.ts'', readAsText = Some ''let x = 1''\<rparr>,
       \<lparr>webkitRelativePath = ''proj/package.json'',
         readAsText = Some ''{"scripts": {"dev": "vite"}}''\<rparr>]
   \<and> (\<exists>m1 m2 m3 m4 w'.
        createChatFromFolder (\<lambda>w. (''id-1'', w)) (\<lambda>w. (0, w))
          [\<lparr>webkitRelativePath = ''proj/src/a.ts'', readAsText = Some ''let x = 1''\<rparr>,
           \<lparr>webkitRelativePath = ''proj/package.json'',
             readAsText = Some ''{"scripts": {"dev": "vite"}}''\<rparr>]
          [''logo.png''] ''proj'' ()
          = (Inr [Some m1, Some m2, Some m3, Some m4], w')
        \<and> role m1 = user \<and> role m2 = assistant \<and> role m3 = user \<and> role m4 = assistant)\<close>
proof -
  have r: \<open>readable
      [\<lparr>webkitRelativePath = ''proj/src/a.ts'', readAsText = Some ''let x = 1''\<rparr>,
       \<lparr>webkitRelativePath = ''proj/package.json'',
         readAsText = Some ''{"scripts": {"dev": "vite"}}''\<rparr>]\<close>
    by (simp add: readable_def)
  from createChatFromFolder_order [OF r, of "\<lambda>w. (''id-1'', w)" "\<lambda>w. (0, w)"
      "[''logo.png'']" "''proj''" "()"] r
  show ?thesis by blast
qed

text \<open>
  C1 fails on the code. For the empty list of files the import returns four messages, and
  the last one holds a \<open>shell\<close> action but no \<open>start\<close> action: the detector gives an
  unknown project the setup command \<open>npm install\<close> and no start command, and
  \<open>createCommandsMessage\<close> adds its default pair only when it has no command at all.
\<close>

theorem createChatFromFolder_empty_no_start:
  "\<exists>m1 m2 m3 m4 w'.
     createChatFromFolder generateId newDate [] binaryFiles folderName w
       = (Inr [Some m1, Some m2, Some m3, Some m4], w')
     \<and> has_action ''shell'' (content m4)
     \<and> \<not> has_action ''start'' (content m4)"
proof -
  have det: "detectProjectCommands (contents_of []) =
        \<lparr>type = ''Unknown'', setupCommand = Some ''npm install'', startCommand = None,
         followupMessage = wrench_emoji @ '' Attempting to initialize project with npm...'',
         autoStart = None\<rparr>"
    by (simp add: contents_of_def detect_not_found)
  obtain m4 where
    m4: "fst (createCommandsMessage generateId newDate (detectProjectCommands (contents_of [])) w)
          = Some m4"
    and body: "content m4 = NL @ NL @ NL @ wrench_emoji
          @ '' Attempting to initialize project with npm...'' @ NL
          @ setup_artifact [Shell ''npm install'']"
    by (simp add: createCommandsMessage_eq det wrench_emoji_def)
  have shell: "has_action ''shell'' (content m4)"
    unfolding body has_action_def setup_artifact_def wrench_emoji_def
    by (simp add: NL_def sublist_Cons_right)
  have start: "\<not> has_action ''start'' (content m4)"
    unfolding body has_action_def setup_artifact_def wrench_emoji_def
    by (simp add: NL_def sublist_Cons_right)
  have "readable []" by (simp add: readable_def)
  from createChatFromFolder_eq [OF this, of generateId newDate binaryFiles folderName w] m4
  obtain m1 m2 m3 w' where
    "createChatFromFolder generateId newDate [] binaryFiles folderName w
       = (Inr [Some m1, Some m2, Some m3, Some m4], w')"
    by fastforce
  with shell start show ?thesis by blast
qed

theorem createChatFromFolder_empty_no_start_witness:
  "\<exists>m1 m2 m3 m4 w'.
     createChatFromFolder (\<lambda>w. (''id-1'', w)) (\<lambda>w. (0, w)) [] [] ''empty'' ()
       = (Inr [Some m1, Some m2, Some m3, Some m4], w')
     \<and> has_action ''shell'' (content m4)
     \<and> \<not> has_action ''start'' (content m4)"
  by (rule createChatFromFolder_empty_no_start)

text \<open>
  The sibling \<open>createCommandActionsString\<close> writes both actions for the same commands.
\<close>

lemma createCommandActionsString_unknown:
  "has_action ''shell'' (createCommandActionsString (detectProjectCommands []))
   \<and> has_action ''start'' (createCommandActionsString (detectProjectCommands []))"
proof -
  have "find is_package_json [] = None" by simp
  then show ?thesis
    by (simp add: detect_not_found createCommandActionsString_def Let_def has_action_def
        NL_def sublist_Cons_right)
qed

section \<open>Properties of the escaping\<close>

lemma find_close_Some:
  "find_close t s = Some (body, rest) \<Longrightarrow> s = body @ t @ rest"
proof (induction s arbitrary: body rest)
  case Nil
  then show ?case by (simp split: if_splits)
next
  case (Cons c cs)
  show ?case
  proof (cases "prefix t (c # cs)")
    case True
    with Cons.prems have "body = []" "rest = drop (length t) (c # cs)" by simp_all
    moreover from True obtain zs where "c # cs = t @ zs" by (auto elim: prefixE)
    ultimately show ?thesis by simp
  next
    case False
    with Cons.prems obtain b where "find_close t cs = Some (b, rest)" "body = c # b"
      by (auto split: option.splits)
    with Cons.IH show ?thesis by simp
  qed
qed

lemma match_open_Some:
  assumes "match_open n s = Some (tag, r)"
  shows "\<exists>attrs. tag = n @ attrs @ ''>'' \<and> s = tag @ r \<and> CHR ''>'' \<notin> set attrs"
proof -
  let ?d = "drop (length n) s"
  let ?P = "\<lambda>c. c \<noteq> CHR ''>''"
  from assms have p: "prefix n s"
    by (simp add: match_open_def split: if_splits)
  then obtain zs where "s = n @ zs" by (auto elim: prefixE)
  then have s: "s = n @ ?d" by simp
  show ?thesis
  proof (cases "dropWhile ?P ?d")
    case Nil
    with assms p show ?thesis by (simp add: match_open_def)
  next
    case (Cons g r')
    with assms p have tag: "tag = n @ takeWhile ?P ?d @ [g]" and r: "r' = r"
      by (simp_all add: match_open_def)
    have "dropWhile ?P ?d \<noteq> [] \<Longrightarrow> \<not> ?P (hd (dropWhile ?P ?d))"
      by (rule hd_dropWhile)
    with Cons have "\<not> ?P (hd (dropWhile ?P ?d))" by simp
    with Cons have g: "g = CHR ''>''" by simp
    have "takeWhile ?P ?d @ dropWhile ?P ?d = ?d"
      by (rule takeWhile_dropWhile_id)
    with Cons r have "?d = takeWhile ?P ?d @ g # r" by simp
    with s have "s = n @ takeWhile ?P ?d @ g # r" by simp
    with tag have "s = tag @ r" by simp
    moreover have "CHR ''>'' \<notin> set (takeWhile ?P ?d)"
      using set_takeWhileD [of "CHR ''>''" ?P ?d] by blast
    ultimately show ?thesis using tag g by simp
  qed
qed

lemma match_at_Some:
  assumes "match_at n t s = Some (tag, body, t', rest)"
  shows "\<exists>attrs. tag = n @ attrs @ ''>'' \<and> t' = t \<and> s = tag @ body @ t @ rest
           \<and> CHR ''>'' \<notin> set attrs"
proof -
  from assms obtain r where mo: "match_open n s = Some (tag, r)"
    and fc: "find_close t r = Some (body, rest)" and t': "t' = t"
    by (auto simp: match_at_def split: option.splits)
  from match_open_Some [OF mo] obtain attrs where
    "tag = n @ attrs @ ''>''" "s = tag @ r" "CHR ''>'' \<notin> set attrs" by blast
  with find_close_Some [OF fc] t' show ?thesis by auto
qed

lemma has_pair_Cons: "has_pair n t cs \<Longrightarrow> has_pair n t (c # cs)"
  unfolding has_pair_def
  by (metis append_Cons)

lemma match_at_pair:
  assumes "match_at n t s = Some x"
  shows "has_pair n t s"
proof -
  obtain tag body t' rest where x: "x = (tag, body, t', rest)"
    by (cases x)
  from match_at_Some [OF assms [unfolded x]] obtain attrs where
    tag: "tag = n @ attrs @ ''>''" and s: "s = tag @ body @ t @ rest"
    and attrs: "CHR ''>'' \<notin> set attrs"
    by blast
  from tag s have "s = [] @ n @ attrs @ ''>'' @ body @ t @ rest" by simp
  with attrs show ?thesis
    unfolding has_pair_def by blast
qed

lemma no_pair_no_match: "\<not> has_pair n t s \<Longrightarrow> match_at n t s = None"
  using match_at_pair [of n t s] by (cases "match_at n t s") simp_all

lemma replace_no_match_Nil: "match_at n t [] = None \<Longrightarrow> replace_tag_pairs n t [] = []"
  by (subst replace_tag_pairs.simps) (simp only: option.case list.case)

lemma replace_no_match_Cons:
  "match_at n t (c # cs) = None \<Longrightarrow>
     replace_tag_pairs n t (c # cs) = c # replace_tag_pairs n t cs"
  by (subst replace_tag_pairs.simps) (simp only: option.case list.case)

lemma replace_match:
  "match_at n t s = Some (tag, body, t', rest) \<Longrightarrow>
     replace_tag_pairs n t s
       = escape_tag tag @ body @ escape_tag t' @ replace_tag_pairs n t rest"
  by (subst replace_tag_pairs.simps) (simp only: option.case prod.case)

lemma no_pair_unchanged:
  "\<not> has_pair n t s \<Longrightarrow> replace_tag_pairs n t s = s"
proof (induction s)
  case Nil
  then have "match_at n t [] = None" by (rule no_pair_no_match)
  then show ?case by (rule replace_no_match_Nil)
next
  case (Cons c cs)
  from Cons.prems have "\<not> has_pair n t cs"
    using has_pair_Cons by blast
  with Cons.IH have "replace_tag_pairs n t cs = cs" by simp
  moreover from Cons.prems have "match_at n t (c # cs) = None" by (rule no_pair_no_match)
  then have "replace_tag_pairs n t (c # cs) = c # replace_tag_pairs n t cs"
    by (rule replace_no_match_Cons)
  ultimately show ?case by simp
qed

lemma has_pair_sublist_open: "has_pair n t s \<Longrightarrow> sublist n s"
  unfolding has_pair_def sublist_def by blast

lemma has_pair_sublist_close: "has_pair n t s \<Longrightarrow> sublist t s"
  unfolding has_pair_def sublist_def
  by (metis append.assoc)

text \<open>A tag that begins in \<open>p\<close> cannot run over into \<open>r\<close> when \<open>r\<close> starts with a
  character that the tag has only in first place.\<close>

lemma prefix_straddle:
  assumes "prefix n (p @ r)" and "p \<noteq> []" and "r \<noteq> [] \<Longrightarrow> hd r \<notin> set (tl n)"
  shows "prefix n p"
proof -
  from assms(1) consider "prefix n p" | us where "n = p @ us" "prefix us r"
    by (auto simp: prefix_append)
  then show ?thesis
  proof cases
    case 1
    then show ?thesis .
  next
    case 2
    show ?thesis
    proof (cases us)
      case Nil
      with 2 show ?thesis by simp
    next
      case (Cons u us')
      with 2 obtain r' where r: "r = u # r'" by (cases r) auto
      from 2 Cons assms(2) have "u \<in> set (tl n)" by (cases p) auto
      with assms(3) r show ?thesis by simp
    qed
  qed
qed

lemma replace_skip:
  assumes "\<not> sublist n pre" and "r \<noteq> [] \<Longrightarrow> hd r \<notin> set (tl n)"
  shows "replace_tag_pairs n t (pre @ r) = pre @ replace_tag_pairs n t r"
  using assms(1)
proof (induction pre)
  case Nil
  then show ?case by simp
next
  case (Cons c cs)
  have "\<not> prefix n ((c # cs) @ r)"
  proof
    assume "prefix n ((c # cs) @ r)"
    from prefix_straddle [OF this _ assms(2)] have "prefix n (c # cs)" by simp
    with Cons.prems show False by auto
  qed
  then have "match_at n t (c # cs @ r) = None"
    by (simp add: match_at_def match_open_def)
  then have "replace_tag_pairs n t (c # cs @ r) = c # replace_tag_pairs n t (cs @ r)"
    by (rule replace_no_match_Cons)
  moreover from Cons.prems have "\<not> sublist n cs"
    by (auto simp: sublist_Cons_right)
  ultimately show ?case
    using Cons.IH by simp
qed

lemma find_close_first:
  assumes "\<not> sublist t body" and "t \<noteq> []" and "hd t \<notin> set (tl t)"
  shows "find_close t (body @ t @ post) = Some (body, post)"
  using assms(1)
proof (induction body)
  case Nil
  from assms(2) obtain c cs where t: "t = c # cs" by (cases t) auto
  have "find_close (c # cs) (c # cs @ post) = Some ([], post)" by simp
  with t show ?case by simp
next
  case (Cons c cs)
  have "\<not> prefix t ((c # cs) @ t @ post)"
  proof
    assume "prefix t ((c # cs) @ t @ post)"
    from prefix_straddle [OF this] assms(2,3) have "prefix t (c # cs)"
      by (cases t) auto
    with Cons.prems show False by auto
  qed
  moreover from Cons.prems have "\<not> sublist t cs"
    by (auto simp: sublist_Cons_right)
  ultimately show ?case using Cons.IH by simp
qed

lemma match_open_tag:
  assumes "CHR ''>'' \<notin> set attrs"
  shows "match_open n (n @ attrs @ CHR ''>'' # r) = Some (n @ attrs @ ''>'', r)"
proof -
  have "dropWhile (\<lambda>c. c \<noteq> CHR ''>'') (attrs @ CHR ''>'' # r) = CHR ''>'' # r"
    using assms by (induction attrs) auto
  moreover have "takeWhile (\<lambda>c. c \<noteq> CHR ''>'') (attrs @ CHR ''>'' # r) = attrs"
    using assms by (induction attrs) auto
  ultimately show ?thesis by (simp add: match_open_def)
qed

lemma replace_pair:
  assumes "\<not> sublist n pre" and "n \<noteq> []" and "hd n \<notin> set (tl n)"
    and "CHR ''>'' \<notin> set attrs"
    and "\<not> sublist t body" and "t \<noteq> []" and "hd t \<notin> set (tl t)"
  shows "replace_tag_pairs n t (pre @ n @ attrs @ ''>'' @ body @ t @ post)
           = pre @ escape_tag (n @ attrs @ ''>'') @ body @ escape_tag t
               @ replace_tag_pairs n t post"
proof -
  let ?r = "n @ attrs @ ''>'' @ body @ t @ post"
  from assms(2,3) have "?r \<noteq> [] \<Longrightarrow> hd ?r \<notin> set (tl n)" by simp
  from replace_skip [OF assms(1) this]
  have "replace_tag_pairs n t (pre @ ?r) = pre @ replace_tag_pairs n t ?r" by simp
  moreover have "match_at n t ?r = Some (n @ attrs @ ''>'', body, t, post)"
    using match_open_tag [OF assms(4), of n "body @ t @ post"]
      find_close_first [OF assms(5,6,7), of post]
    by (simp add: match_at_def)
  then have "replace_tag_pairs n t ?r
      = escape_tag (n @ attrs @ ''>'') @ body @ escape_tag t @ replace_tag_pairs n t post"
    by (rule replace_match)
  ultimately show ?thesis by simp
qed

lemma find_close_sublist: "sublist t s \<Longrightarrow> find_close t s \<noteq> None"
proof (induction s)
  case Nil
  then show ?case by simp
next
  case (Cons c cs)
  show ?case
  proof (cases "prefix t (c # cs)")
    case True
    then show ?thesis by simp
  next
    case False
    with Cons.prems have "sublist t cs" by (simp add: sublist_Cons_right)
    with Cons.IH False show ?thesis by auto
  qed
qed

text \<open>A text has a matched pair exactly when the expression matches somewhere in it.\<close>

lemma has_pair_match:
  "has_pair n t s \<longleftrightarrow> (\<exists>pre r. s = pre @ r \<and> match_at n t r \<noteq> None)"
proof
  assume "has_pair n t s"
  then obtain pre attrs body post where
    s: "s = pre @ n @ attrs @ ''>'' @ body @ t @ post" and attrs: "CHR ''>'' \<notin> set attrs"
    unfolding has_pair_def by blast
  have "sublist t (body @ t @ post)" by simp
  then obtain x where "find_close t (body @ t @ post) = Some x"
    using find_close_sublist by blast
  with match_open_tag [OF attrs, of n "body @ t @ post"]
  have "match_at n t (n @ attrs @ ''>'' @ body @ t @ post) \<noteq> None"
    by (cases x) (simp add: match_at_def)
  with s show "\<exists>pre r. s = pre @ r \<and> match_at n t r \<noteq> None" by blast
next
  assume "\<exists>pre r. s = pre @ r \<and> match_at n t r \<noteq> None"
  then obtain pre r x where s: "s = pre @ r" and "match_at n t r = Some x" by auto
  then have "has_pair n t r" by (simp add: match_at_pair)
  then obtain pre' attrs body post where
    "r = pre' @ n @ attrs @ ''>'' @ body @ t @ post" "CHR ''>'' \<notin> set attrs"
    unfolding has_pair_def by blast
  with s have "s = (pre @ pre') @ n @ attrs @ ''>'' @ body @ t @ post
      \<and> CHR ''>'' \<notin> set attrs"
    by simp
  then show "has_pair n t s" unfolding has_pair_def by blast
qed

lemma sublist_append_left:
  assumes "sublist n (a @ b)" and "b \<noteq> [] \<Longrightarrow> hd b \<notin> set n"
  shows "sublist n a \<or> sublist n b"
proof -
  from assms(1) consider "sublist n a" | "sublist n b"
    | n1 n2 where "n = n1 @ n2" "suffix n1 a" "prefix n2 b"
    by (auto simp: sublist_append)
  then show ?thesis
  proof cases
    case 3
    show ?thesis
    proof (cases n2)
      case Nil
      with 3 show ?thesis by simp
    next
      case (Cons x xs)
      with 3 obtain b' where "b = x # b'" by (cases b) auto
      with 3 Cons assms(2) show ?thesis by simp
    qed
  qed simp_all
qed

lemma sublist_append_right:
  assumes "sublist n (a @ b)" and "n \<noteq> []" and "hd n \<notin> set a"
  shows "sublist n b"
proof -
  from assms(1) consider "sublist n a" | "sublist n b"
    | n1 n2 where "n = n1 @ n2" "suffix n1 a" "prefix n2 b"
    by (auto simp: sublist_append)
  then show ?thesis
  proof cases
    case 1
    then have "set n \<subseteq> set a" by (auto simp: sublist_def)
    with assms(2,3) show ?thesis by (cases n) auto
  next
    case 2
    then show ?thesis .
  next
    case 3
    show ?thesis
    proof (cases n1)
      case Nil
      with 3 show ?thesis by simp
    next
      case (Cons x xs)
      from 3 have "set n1 \<subseteq> set a" by (auto simp: suffix_def)
      with 3 Cons assms(3) show ?thesis by simp
    qed
  qed
qed

lemma sublist_around:
  assumes "\<not> sublist n pre" and "\<not> sublist n post"
    and "n \<noteq> []" and "hd n \<notin> set m" and "m \<noteq> []" and "hd m \<notin> set n"
  shows "\<not> sublist n (pre @ m @ post)"
proof
  assume "sublist n (pre @ m @ post)"
  from sublist_append_left [OF this] assms(1,5,6) have "sublist n (m @ post)"
    by simp
  from sublist_append_right [OF this assms(3,4)] assms(2) show False by simp
qed

text \<open>
  C6, as amended. In a text that has the pair \<open><boltAction type="file">x</boltAction>\<close>
  between two parts holding no \<open><boltAction\<close>, no \<open></boltAction>\<close> and no
  \<open><boltArtifact\<close>, \<open>escapeBoltTags\<close> replaces the pair by its escaped form and leaves
  both parts (a \<open><div>\<close> tag, say) as they are; the result holds neither
  \<open><boltAction\<close> nor \<open></boltAction>\<close>.
\<close>

theorem escapeBoltTags_file_action:
  assumes "no_bolt_tag pre" and "no_bolt_tag post"
  shows \<open>escapeBoltTags (pre @ ''<boltAction type="file">x</boltAction>'' @ post)
           = pre @ ''&lt;boltAction type="file"&gt;x&lt;/boltAction&gt;'' @ post
         \<and> \<not> sublist ''<boltAction''
              (escapeBoltTags (pre @ ''<boltAction type="file">x</boltAction>'' @ post))
         \<and> \<not> sublist ''</boltAction>''
              (escapeBoltTags (pre @ ''<boltAction type="file">x</boltAction>'' @ post))\<close>
proof -
  let ?m = \<open>''&lt;boltAction type="file"&gt;x&lt;/boltAction&gt;''\<close>
  from assms have pre: "\<not> sublist ''<boltAction'' pre" "\<not> sublist ''</boltAction>'' pre"
      "\<not> sublist ''<boltArtifact'' pre"
    and post: "\<not> sublist ''<boltAction'' post" "\<not> sublist ''</boltAction>'' post"
      "\<not> sublist ''<boltArtifact'' post"
    by (simp_all add: no_bolt_tag_def)
  from post(1) have "replace_tag_pairs ''<boltAction'' ''</boltAction>'' post = post"
    using has_pair_sublist_open no_pair_unchanged by blast
  moreover have \<open>replace_tag_pairs ''<boltAction'' ''</boltAction>''
          (pre @ ''<boltAction'' @ '' type="file"'' @ ''>'' @ ''x'' @ ''</boltAction>'' @ post)
        = pre @ escape_tag (''<boltAction'' @ '' type="file"'' @ ''>'') @ ''x''
            @ escape_tag ''</boltAction>''
            @ replace_tag_pairs ''<boltAction'' ''</boltAction>'' post\<close>
    by (rule replace_pair [OF pre(1)]) (simp_all add: sublist_Cons_right)
  ultimately have action: \<open>escapeBoltAActionTags
        (pre @ ''<boltAction type="file">x</boltAction>'' @ post) = pre @ ?m @ post\<close>
    by (simp add: escapeBoltAActionTags_def escape_tag_def replace_char_def)
  have "\<not> sublist ''<boltArtifact'' (pre @ ?m @ post)"
    by (rule sublist_around [OF pre(3) post(3)]) simp_all
  then have "replace_tag_pairs ''<boltArtifact'' ''</boltArtifact>'' (pre @ ?m @ post)
      = pre @ ?m @ post"
    using has_pair_sublist_open no_pair_unchanged by blast
  with action have result: \<open>escapeBoltTags
        (pre @ ''<boltAction type="file">x</boltAction>'' @ post) = pre @ ?m @ post\<close>
    by (simp add: escapeBoltTags_def escapeBoltArtifactTags_def)
  moreover have "\<not> sublist ''<boltAction'' (pre @ ?m @ post)"
    by (rule sublist_around [OF pre(1) post(1)]) simp_all
  moreover have "\<not> sublist ''</boltAction>'' (pre @ ?m @ post)"
    by (rule sublist_around [OF pre(2) post(2)]) simp_all
  ultimately show ?thesis by simp
qed

theorem escapeBoltTags_file_action_witness:
  \<open>no_bolt_tag ''<div>hello</div>'' \<and> no_bolt_tag ''<p>bye</p>''
   \<and> escapeBoltTags (''<div>hello</div>'' @ ''<boltAction type="file">x</boltAction>''
         @ ''<p>bye</p>'')
       = ''<div>hello</div>'' @ ''&lt;boltAction type="file"&gt;x&lt;/boltAction&gt;''
         @ ''<p>bye</p>''\<close>
proof -
  have pre: "no_bolt_tag ''<div>hello</div>''"
    by (simp add: no_bolt_tag_def sublist_Cons_right)
  have post: "no_bolt_tag ''<p>bye</p>''"
    by (simp add: no_bolt_tag_def sublist_Cons_right)
  from escapeBoltTags_file_action [OF pre post] pre post show ?thesis
    by (simp only: simp_thms)
qed

text \<open>
  C6 as stated fails: in a text that holds the pair after another opening tag, the
  earlier tag is the one that is matched, and the opening tag of the pair itself stays.
\<close>

theorem escapeBoltTags_pair_counterexample:
  \<open>sublist ''<boltAction type="file">x</boltAction>''
      ''<boltAction><boltAction type="file">x</boltAction>''
   \<and> escapeBoltTags ''<boltAction><boltAction type="file">x</boltAction>''
       = ''&lt;boltAction&gt;<boltAction type="file">x&lt;/boltAction&gt;''
   \<and> sublist ''<boltAction type="file">''
       (escapeBoltTags ''<boltAction><boltAction type="file">x</boltAction>'')\<close>
  by code_simp

text \<open>
  C7, as amended. Each of the two passes works only within the matched pairs of its own
  tag in the text it is given: before the leftmost pair nothing changes, the opening tag
  runs to the first \<open>>\<close>, the pair ends at the next closing tag after it (the match
  is not greedy), only the two tags are escaped, the text between them is copied, and the
  text after the pair is treated the same way. \<open>escapeBoltTags\<close> runs the pass for
  \<open>boltAction\<close> and then, on its result, the pass for \<open>boltArtifact\<close>. A text with no
  matched pair of either tag, such as one with lone opening or lone closing tags only,
  comes back unchanged.
\<close>

theorem escape_only_matched_pairs:
  "escapeBoltTags s = escapeBoltArtifactTags (escapeBoltAActionTags s)
   \<and> (\<not> has_pair ''<boltAction'' ''</boltAction>'' s
        \<and> \<not> has_pair ''<boltArtifact'' ''</boltArtifact>'' s
        \<longrightarrow> escapeBoltTags s = s)
   \<and> (\<not> sublist ''<boltAction'' pre \<and> CHR ''>'' \<notin> set attrs
        \<and> \<not> sublist ''</boltAction>'' body
        \<longrightarrow> escapeBoltAActionTags
              (pre @ ''<boltAction'' @ attrs @ ''>'' @ body @ ''</boltAction>'' @ post)
            = pre @ escape_tag (''<boltAction'' @ attrs @ ''>'') @ body
                @ ''&lt;/boltAction&gt;'' @ escapeBoltAActionTags post)
   \<and> (\<not> sublist ''<boltArtifact'' pre \<and> CHR ''>'' \<notin> set attrs
        \<and> \<not> sublist ''</boltArtifact>'' body
        \<longrightarrow> escapeBoltArtifactTags
              (pre @ ''<boltArtifact'' @ attrs @ ''>'' @ body @ ''</boltArtifact>'' @ post)
            = pre @ escape_tag (''<boltArtifact'' @ attrs @ ''>'') @ body
                @ ''&lt;/boltArtifact&gt;'' @ escapeBoltArtifactTags post)"
proof (intro conjI impI)
  show "escapeBoltTags s = escapeBoltArtifactTags (escapeBoltAActionTags s)"
    by (simp add: escapeBoltTags_def)
next
  assume "\<not> has_pair ''<boltAction'' ''</boltAction>'' s
        \<and> \<not> has_pair ''<boltArtifact'' ''</boltArtifact>'' s"
  then show "escapeBoltTags s = s"
    by (simp add: escapeBoltTags_def escapeBoltArtifactTags_def escapeBoltAActionTags_def
        no_pair_unchanged)
next
  assume h: "\<not> sublist ''<boltAction'' pre \<and> CHR ''>'' \<notin> set attrs
        \<and> \<not> sublist ''</boltAction>'' body"
  have "replace_tag_pairs ''<boltAction'' ''</boltAction>''
          (pre @ ''<boltAction'' @ attrs @ ''>'' @ body @ ''</boltAction>'' @ post)
        = pre @ escape_tag (''<boltAction'' @ attrs @ ''>'') @ body
            @ escape_tag ''</boltAction>''
            @ replace_tag_pairs ''<boltAction'' ''</boltAction>'' post"
    using h by (intro replace_pair) simp_all
  then show "escapeBoltAActionTags
              (pre @ ''<boltAction'' @ attrs @ ''>'' @ body @ ''</boltAction>'' @ post)
            = pre @ escape_tag (''<boltAction'' @ attrs @ ''>'') @ body
                @ ''&lt;/boltAction&gt;'' @ escapeBoltAActionTags post"
    by (simp add: escapeBoltAActionTags_def escape_tag_def replace_char_def)
next
  assume h: "\<not> sublist ''<boltArtifact'' pre \<and> CHR ''>'' \<notin> set attrs
        \<and> \<not> sublist ''</boltArtifact>'' body"
  have "replace_tag_pairs ''<boltArtifact'' ''</boltArtifact>''
          (pre @ ''<boltArtifact'' @ attrs @ ''>'' @ body @ ''</boltArtifact>'' @ post)
        = pre @ escape_tag (''<boltArtifact'' @ attrs @ ''>'') @ body
            @ escape_tag ''</boltArtifact>''
            @ replace_tag_pairs ''<boltArtifact'' ''</boltArtifact>'' post"
    using h by (intro replace_pair) simp_all
  then show "escapeBoltArtifactTags
              (pre @ ''<boltArtifact'' @ attrs @ ''>'' @ body @ ''</boltArtifact>'' @ post)
            = pre @ escape_tag (''<boltArtifact'' @ attrs @ ''>'') @ body
                @ ''&lt;/boltArtifact&gt;'' @ escapeBoltArtifactTags post"
    by (simp add: escapeBoltArtifactTags_def escape_tag_def replace_char_def)
qed

theorem escape_only_matched_pairs_witness:
  \<open>escapeBoltTags ''<boltAction type="file">never closed, </boltArtifact> never opened''
     = ''<boltAction type="file">never closed, </boltArtifact> never opened''
   \<and> escapeBoltAActionTags
        (''<div>'' @ ''<boltAction'' @ '' type="shell"'' @ ''>'' @ ''a'' @ ''</boltAction>''
          @ ''b</boltAction>'')
     = ''<div>'' @ ''&lt;boltAction type="shell"&gt;'' @ ''a'' @ ''&lt;/boltAction&gt;''
          @ ''b</boltAction>''
   \<and> escapeBoltArtifactTags
        (''<div>'' @ ''<boltArtifact'' @ '' id="1"'' @ ''>'' @ ''a'' @ ''</boltArtifact>''
          @ ''b</boltArtifact>'')
     = ''<div>'' @ ''&lt;boltArtifact id="1"&gt;'' @ ''a'' @ ''&lt;/boltArtifact&gt;''
          @ ''b</boltArtifact>''\<close>
proof -
  let ?lone = \<open>''<boltAction type="file">never closed, </boltArtifact> never opened''\<close>
  have "\<not> sublist ''</boltAction>'' ?lone" and "\<not> sublist ''<boltArtifact'' ?lone"
    by (simp_all add: sublist_Cons_right)
  then have lone: "\<not> has_pair ''<boltAction'' ''</boltAction>'' ?lone
        \<and> \<not> has_pair ''<boltArtifact'' ''</boltArtifact>'' ?lone"
    using has_pair_sublist_close has_pair_sublist_open by blast
  have action: \<open>\<not> sublist ''<boltAction'' ''<div>'' \<and> CHR ''>'' \<notin> set '' type="shell"''
        \<and> \<not> sublist ''</boltAction>'' ''a''\<close>
    by (simp add: sublist_Cons_right)
  have artifact: \<open>\<not> sublist ''<boltArtifact'' ''<div>'' \<and> CHR ''>'' \<notin> set '' id="1"''
        \<and> \<not> sublist ''</boltArtifact>'' ''a''\<close>
    by (simp add: sublist_Cons_right)
  have rest1: "escapeBoltAActionTags ''b</boltAction>'' = ''b</boltAction>''"
    by code_simp
  have rest2: "escapeBoltArtifactTags ''b</boltArtifact>'' = ''b</boltArtifact>''"
    by code_simp
  note t1 = escape_only_matched_pairs [of ?lone "[]" "[]" "[]" "[]"]
  note t2 = escape_only_matched_pairs [of "[]" \<open>''<div>''\<close> \<open>'' type="shell"''\<close> \<open>''a''\<close>
      \<open>''b</boltAction>''\<close>]
  note t3 = escape_only_matched_pairs [of "[]" \<open>''<div>''\<close> \<open>'' id="1"''\<close> \<open>''a''\<close>
      \<open>''b</boltArtifact>''\<close>]
  have 1: "escapeBoltTags ?lone = ?lone"
    by (rule mp [OF conjunct1 [OF conjunct2 [OF t1]] lone])
  have 2: \<open>escapeBoltAActionTags
        (''<div>'' @ ''<boltAction'' @ '' type="shell"'' @ ''>'' @ ''a'' @ ''</boltAction>''
          @ ''b</boltAction>'')
     = ''<div>'' @ escape_tag (''<boltAction'' @ '' type="shell"'' @ ''>'') @ ''a''
         @ ''&lt;/boltAction&gt;'' @ escapeBoltAActionTags ''b</boltAction>''\<close>
    by (rule mp [OF conjunct1 [OF conjunct2 [OF conjunct2 [OF t2]]] action])
  have 3: \<open>escapeBoltArtifactTags
        (''<div>'' @ ''<boltArtifact'' @ '' id="1"'' @ ''>'' @ ''a'' @ ''</boltArtifact>''
          @ ''b</boltArtifact>'')
     = ''<div>'' @ escape_tag (''<boltArtifact'' @ '' id="1"'' @ ''>'') @ ''a''
         @ ''&lt;/boltArtifact&gt;'' @ escapeBoltArtifactTags ''b</boltArtifact>''\<close>
    by (rule mp [OF conjunct2 [OF conjunct2 [OF conjunct2 [OF t3]]] artifact])
  have e1: \<open>escape_tag (''<boltAction'' @ '' type="shell"'' @ ''>'')
      = ''&lt;boltAction type="shell"&gt;''\<close>
    by (simp add: escape_tag_def replace_char_def)
  have e2: \<open>escape_tag (''<boltArtifact'' @ '' id="1"'' @ ''>'')
      = ''&lt;boltArtifact id="1"&gt;''\<close>
    by (simp add: escape_tag_def replace_char_def)
  from 1 2 3 show ?thesis
    unfolding rest1 rest2 e1 e2 by (intro conjI)
qed

text \<open>
  C7 as stated fails. The text below has one opening and two closing \<open>boltArtifact\<close>
  tags, so one closing tag has no partner; on its own the pass for \<open>boltArtifact\<close>
  leaves the last one as it is. \<open>escapeBoltTags\<close> escapes both: once the \<open>boltAction\<close>
  pair is escaped, the first \<open>>\<close> after \<open><boltArtifact\<close> is the one that ends the first
  closing tag.
\<close>

theorem escapeBoltTags_lone_counterexample:
  \<open>escapeBoltArtifactTags
      ''<boltArtifact <boltAction>x</boltAction></boltArtifact></boltArtifact>''
     = ''&lt;boltArtifact &lt;boltAction&gt;x</boltAction>&lt;/boltArtifact&gt;</boltArtifact>''
   \<and> escapeBoltTags
      ''<boltArtifact <boltAction>x</boltAction></boltArtifact></boltArtifact>''
     = ''&lt;boltArtifact &lt;boltAction&gt;x&lt;/boltAction&gt;&lt;/boltArtifact&gt;&lt;/boltArtifact&gt;''
   \<and> \<not> sublist ''</boltArtifact>''
       (escapeBoltTags
          ''<boltArtifact <boltAction>x</boltAction></boltArtifact></boltArtifact>'')\<close>
  by code_simp


end
